theory Spec2Isabelle
  imports Main
begin

section \<open>Text: code units and the string methods the converter calls\<close>

text \<open>
  The conversion engine is the function \<^verbatim>\<open>convertMySQLToMariaDB\<close> together with
  \<^verbatim>\<open>getLineNumber\<close> and \<^verbatim>\<open>addIssue\<close>, as listed in
  \<^verbatim>\<open>src/client/src/pages/converter.tsx\<close> (lines 96 to 1231, the engine listing with the
  complete rule set).  A text is a list of 8-bit code units; the regular expressions of
  the engine only name ASCII characters, and the character classes below are the
  ECMAScript ones restricted to that range.
\<close>

definition is_space :: "char \<Rightarrow> bool" where
  \<comment> \<open>the class \<^verbatim>\<open>\s\<close>, which is also what \<^verbatim>\<open>trim\<close> strips: TAB, LF, VT, FF, CR, SP, NBSP\<close>
  "is_space c = (let n = (of_char c :: nat) in (9 \<le> n \<and> n \<le> 13) \<or> n = 32 \<or> n = 160)"

definition is_digit :: "char \<Rightarrow> bool" where
  "is_digit c = (let n = (of_char c :: nat) in 48 \<le> n \<and> n \<le> 57)"

definition is_upper :: "char \<Rightarrow> bool" where
  "is_upper c = (let n = (of_char c :: nat) in 65 \<le> n \<and> n \<le> 90)"

definition is_lower :: "char \<Rightarrow> bool" where
  "is_lower c = (let n = (of_char c :: nat) in 97 \<le> n \<and> n \<le> 122)"

definition is_word :: "char \<Rightarrow> bool" where
  \<comment> \<open>the class \<^verbatim>\<open>\w\<close>, which also decides \<^verbatim>\<open>\b\<close>\<close>
  "is_word c = (is_upper c \<or> is_lower c \<or> is_digit c \<or> c = CHR ''_'')"

definition is_line_terminator :: "char \<Rightarrow> bool" where
  "is_line_terminator c = (c = CHR 0x0A \<or> c = CHR 0x0D)"

fun to_lower :: "char \<Rightarrow> char" where
  \<comment> \<open>an ASCII capital and its small letter differ in bit 5 only\<close>
  "to_lower (Char b0 b1 b2 b3 b4 b5 b6 b7) =
     (if is_upper (Char b0 b1 b2 b3 b4 b5 b6 b7) then Char b0 b1 b2 b3 b4 True b6 b7
      else Char b0 b1 b2 b3 b4 b5 b6 b7)"

fun to_upper :: "char \<Rightarrow> char" where
  "to_upper (Char b0 b1 b2 b3 b4 b5 b6 b7) =
     (if is_lower (Char b0 b1 b2 b3 b4 b5 b6 b7) then Char b0 b1 b2 b3 b4 False b6 b7
      else Char b0 b1 b2 b3 b4 b5 b6 b7)"

text \<open>The classes read off the bits of a code unit, for evaluation.\<close>

lemma is_space_bits [code, simp]:
  "is_space (Char b0 b1 b2 b3 b4 b5 b6 b7) =
     ((\<not> b7 \<and> \<not> b6 \<and> \<not> b5 \<and> \<not> b4 \<and> b3 \<and> ((\<not> b2 \<and> (b1 \<or> b0)) \<or> (b2 \<and> \<not> b1))) \<or>
      (\<not> b6 \<and> b5 \<and> \<not> b4 \<and> \<not> b3 \<and> \<not> b2 \<and> \<not> b1 \<and> \<not> b0))"
  by (cases b0; cases b1; cases b2; cases b3; cases b4; cases b5; cases b6; cases b7)
     (simp_all add: is_space_def)

lemma is_digit_bits [code, simp]:
  "is_digit (Char b0 b1 b2 b3 b4 b5 b6 b7) =
     (\<not> b7 \<and> \<not> b6 \<and> b5 \<and> b4 \<and> (\<not> b3 \<or> (\<not> b2 \<and> \<not> b1)))"
  by (cases b0; cases b1; cases b2; cases b3; cases b4; cases b5; cases b6; cases b7)
     (simp_all add: is_digit_def)

lemma is_upper_bits [code, simp]:
  "is_upper (Char b0 b1 b2 b3 b4 b5 b6 b7) =
     (\<not> b7 \<and> b6 \<and> \<not> b5 \<and> (b0 \<or> b1 \<or> b2 \<or> b3 \<or> b4) \<and> \<not> (b4 \<and> b3 \<and> (b2 \<or> (b1 \<and> b0))))"
  by (cases b0; cases b1; cases b2; cases b3; cases b4; cases b5; cases b6; cases b7)
     (simp_all add: is_upper_def)

lemma is_lower_bits [code, simp]:
  "is_lower (Char b0 b1 b2 b3 b4 b5 b6 b7) =
     (\<not> b7 \<and> b6 \<and> b5 \<and> (b0 \<or> b1 \<or> b2 \<or> b3 \<or> b4) \<and> \<not> (b4 \<and> b3 \<and> (b2 \<or> (b1 \<and> b0))))"
  by (cases b0; cases b1; cases b2; cases b3; cases b4; cases b5; cases b6; cases b7)
     (simp_all add: is_lower_def)

definition js_toLowerCase :: "string \<Rightarrow> string" where
  "js_toLowerCase s = map to_lower s"

definition js_toUpperCase :: "string \<Rightarrow> string" where
  "js_toUpperCase s = map to_upper s"

definition js_trim :: "string \<Rightarrow> string" where
  "js_trim s = rev (dropWhile is_space (rev (dropWhile is_space s)))"

definition js_startsWith :: "string \<Rightarrow> string \<Rightarrow> bool" where
  "js_startsWith s p = (take (length p) s = p)"

fun js_includes :: "string \<Rightarrow> string \<Rightarrow> bool" where
  "js_includes [] p = (p = [])"
| "js_includes (c # cs) p = (js_startsWith (c # cs) p \<or> js_includes cs p)"

fun js_indexOf_from :: "int \<Rightarrow> string \<Rightarrow> string \<Rightarrow> int" where
  "js_indexOf_from i [] p = (if p = [] then i else - 1)"
| "js_indexOf_from i (c # cs) p = (if js_startsWith (c # cs) p then i else js_indexOf_from (i + 1) cs p)"

definition js_indexOf :: "string \<Rightarrow> string \<Rightarrow> int" where
  \<comment> \<open>the index of the first occurrence, \<open>- 1\<close> when there is none\<close>
  "js_indexOf s p = js_indexOf_from 0 s p"

definition js_substring :: "string \<Rightarrow> int \<Rightarrow> int \<Rightarrow> string" where
  \<comment> \<open>both ends are clamped into \<open>0 .. length\<close> and swapped when out of order\<close>
  "js_substring s a b =
     (let n = int (length s);
          a' = max 0 (min a n);
          b' = max 0 (min b n);
          lo = min a' b';
          hi = max a' b'
      in take (nat (hi - lo)) (drop (nat lo) s))"

fun js_split_nl :: "string \<Rightarrow> string list" where
  \<comment> \<open>\<^verbatim>\<open>split('\n')\<close>: never the empty list\<close>
  "js_split_nl [] = [[]]"
| "js_split_nl (c # cs) =
     (if c = CHR 0x0A then [] # js_split_nl cs
      else (case js_split_nl cs of [] \<Rightarrow> [[c]] | l # ls \<Rightarrow> (c # l) # ls))"

section \<open>Regular expressions: the backtracking matcher\<close>

datatype cset = CC char | CR char char | CSpace | CNSpace | CDigit | CWord

datatype regex =
    Lit string
  | Cls "cset list"
  | NCls "cset list"
  | Dot
  | Seq regex regex
  | Alt regex regex
  | Star regex
  | LStar regex
  | Opt regex
  | Group nat regex
  | WordB
  | Bol
  | Eol
  | NLook regex

record flags =
  ignoreCase :: bool
  multiline :: bool

fun in_cset :: "cset \<Rightarrow> char \<Rightarrow> bool" where
  "in_cset (CC a) c = (a = c)"
| "in_cset (CR a b) c = ((of_char a :: nat) \<le> of_char c \<and> (of_char c :: nat) \<le> of_char b)"
| "in_cset CSpace c = is_space c"
| "in_cset CNSpace c = (\<not> is_space c)"
| "in_cset CDigit c = is_digit c"
| "in_cset CWord c = is_word c"

definition in_class :: "flags \<Rightarrow> cset list \<Rightarrow> char \<Rightarrow> bool" where
  \<comment> \<open>under \<^verbatim>\<open>i\<close> a member matches when it is the character in either case\<close>
  "in_class fl items c =
     (list_ex (\<lambda>i. in_cset i c) items \<or>
      (ignoreCase fl \<and>
        (list_ex (\<lambda>i. in_cset i (to_upper c)) items \<or> list_ex (\<lambda>i. in_cset i (to_lower c)) items)))"

definition char_eq :: "flags \<Rightarrow> char \<Rightarrow> char \<Rightarrow> bool" where
  "char_eq fl a c = (if ignoreCase fl then to_upper a = to_upper c else a = c)"

type_synonym captures = "string option list"

type_synonym mstate = "string \<times> char option \<times> captures"

fun match_lit :: "flags \<Rightarrow> string \<Rightarrow> string \<Rightarrow> char option \<Rightarrow> (string \<times> char option) option" where
  "match_lit fl [] rest prev = Some (rest, prev)"
| "match_lit fl (a # as) [] prev = None"
| "match_lit fl (a # as) (c # cs) prev =
     (if char_eq fl a c then match_lit fl as cs (Some c) else None)"

fun groups_of :: "regex \<Rightarrow> nat list" where
  "groups_of (Seq a b) = groups_of a @ groups_of b"
| "groups_of (Alt a b) = groups_of a @ groups_of b"
| "groups_of (Star a) = groups_of a"
| "groups_of (LStar a) = groups_of a"
| "groups_of (Opt a) = groups_of a"
| "groups_of (Group n a) = n # groups_of a"
| "groups_of (NLook a) = groups_of a"
| "groups_of _ = []"

definition clear_caps :: "nat list \<Rightarrow> captures \<Rightarrow> captures" where
  "clear_caps gs caps = fold (\<lambda>g cs. cs[g := None]) gs caps"

definition word_before :: "char option \<Rightarrow> bool" where
  "word_before prev = (case prev of None \<Rightarrow> False | Some c \<Rightarrow> is_word c)"

definition word_after :: "string \<Rightarrow> bool" where
  "word_after rest = (case rest of [] \<Rightarrow> False | c # _ \<Rightarrow> is_word c)"

text \<open>
  \<open>run fl r (rest, prev, caps)\<close> lists the ways \<open>r\<close> can match a prefix of \<open>rest\<close>, in
  the order in which a backtracking matcher tries them: the head is the match the
  engine reports.  \<open>prev\<close> is the code unit before the position (for \<^verbatim>\<open>\b\<close> and
  \<^verbatim>\<open>^\<close>).  An iteration of \<^verbatim>\<open>*\<close>, \<^verbatim>\<open>*?\<close> or \<^verbatim>\<open>?\<close> that consumes nothing is
  rejected, and the groups inside a quantified term are reset at each iteration.
\<close>

function run :: "flags \<Rightarrow> regex \<Rightarrow> mstate \<Rightarrow> mstate list" where
  "run fl (Lit s) (rest, prev, caps) =
     (case match_lit fl s rest prev of None \<Rightarrow> [] | Some (rest', prev') \<Rightarrow> [(rest', prev', caps)])"
| "run fl (Cls items) (rest, prev, caps) =
     (case rest of [] \<Rightarrow> [] | c # cs \<Rightarrow> if in_class fl items c then [(cs, Some c, caps)] else [])"
| "run fl (NCls items) (rest, prev, caps) =
     (case rest of [] \<Rightarrow> [] | c # cs \<Rightarrow> if in_class fl items c then [] else [(cs, Some c, caps)])"
| "run fl Dot (rest, prev, caps) =
     (case rest of [] \<Rightarrow> [] | c # cs \<Rightarrow> if is_line_terminator c then [] else [(cs, Some c, caps)])"
| "run fl (Seq a b) st = concat (map (run fl b) (run fl a st))"
| "run fl (Alt a b) st = run fl a st @ run fl b st"
| "run fl (Star a) (rest, prev, caps) =
     concat (map (\<lambda>st'. if length (fst st') < length rest then run fl (Star a) st' else [])
                 (run fl a (rest, prev, clear_caps (groups_of a) caps)))
     @ [(rest, prev, caps)]"
| "run fl (LStar a) (rest, prev, caps) =
     (rest, prev, caps) #
     concat (map (\<lambda>st'. if length (fst st') < length rest then run fl (LStar a) st' else [])
                 (run fl a (rest, prev, clear_caps (groups_of a) caps)))"
| "run fl (Opt a) (rest, prev, caps) =
     filter (\<lambda>st'. length (fst st') < length rest)
            (run fl a (rest, prev, clear_caps (groups_of a) caps))
     @ [(rest, prev, caps)]"
| "run fl (Group n a) (rest, prev, caps) =
     map (\<lambda>(rest', prev', caps'). (rest', prev', caps'[n := Some (take (length rest - length rest') rest)]))
         (run fl a (rest, prev, caps))"
| "run fl WordB (rest, prev, caps) =
     (if word_before prev \<noteq> word_after rest then [(rest, prev, caps)] else [])"
| "run fl Bol (rest, prev, caps) =
     (case prev of None \<Rightarrow> [(rest, prev, caps)]
      | Some c \<Rightarrow> if multiline fl \<and> is_line_terminator c then [(rest, prev, caps)] else [])"
| "run fl Eol (rest, prev, caps) =
     (case rest of [] \<Rightarrow> [(rest, prev, caps)]
      | c # _ \<Rightarrow> if multiline fl \<and> is_line_terminator c then [(rest, prev, caps)] else [])"
| "run fl (NLook a) (rest, prev, caps) =
     (if run fl a (rest, prev, caps) = [] then [(rest, prev, caps)] else [])"
  by pat_completeness auto
termination
  by (relation "measures [\<lambda>(fl, r, st). size r, \<lambda>(fl, r, st). length (fst st)]") auto

definition Plus :: "regex \<Rightarrow> regex" where
  \<comment> \<open>\<^verbatim>\<open>r+\<close>\<close>
  "Plus r = Seq r (Star r)"

fun seqs :: "regex list \<Rightarrow> regex" where
  "seqs [] = Lit []"
| "seqs [r] = r"
| "seqs (r # rs) = Seq r (seqs rs)"

fun alts :: "regex list \<Rightarrow> regex" where
  "alts [] = NLook (Lit [])"
| "alts [r] = r"
| "alts (r # rs) = Alt r (alts rs)"

definition ngroups :: "regex \<Rightarrow> nat" where
  "ngroups r = fold max (groups_of r) 0"

definition no_captures :: "regex \<Rightarrow> captures" where
  \<comment> \<open>the groups before a match attempt: all undefined (index 0 is unused)\<close>
  "no_captures rx = replicate (Suc (ngroups rx)) None"

definition exec_at :: "flags \<Rightarrow> regex \<Rightarrow> captures \<Rightarrow> string \<Rightarrow> char option \<Rightarrow> (nat \<times> captures) option" where
  \<comment> \<open>the match starting at this position, if any: its length and its groups\<close>
  "exec_at fl rx caps0 rest prev =
     (case run fl rx (rest, prev, caps0) of
        [] \<Rightarrow> None
      | (rest', _, caps) # _ \<Rightarrow> Some (length rest - length rest', caps))"

fun search :: "flags \<Rightarrow> regex \<Rightarrow> captures \<Rightarrow> nat \<Rightarrow> char option \<Rightarrow> string \<Rightarrow> (nat \<times> nat \<times> captures) option" where
  \<comment> \<open>the leftmost match at or after the position: offset, length, groups\<close>
  "search fl rx caps0 off prev [] =
     (case exec_at fl rx caps0 [] prev of None \<Rightarrow> None | Some (k, caps) \<Rightarrow> Some (off, k, caps))"
| "search fl rx caps0 off prev (c # cs) =
     (case exec_at fl rx caps0 (c # cs) prev of
        None \<Rightarrow> search fl rx caps0 (Suc off) (Some c) cs
      | Some (k, caps) \<Rightarrow> Some (off, k, caps))"

definition js_test :: "flags \<Rightarrow> regex \<Rightarrow> string \<Rightarrow> bool" where
  \<comment> \<open>\<^verbatim>\<open>regex.test(s)\<close> on a fresh regular expression\<close>
  "js_test fl rx s = (search fl rx (no_captures rx) 0 None s \<noteq> None)"

section \<open>The data model\<close>

datatype issue_type = Warning | Error | Info

datatype issue_category = Syntax | Compatibility | Optimization

record ConversionStats =
  totalIssues :: nat
  autoFixedCount :: nat
  warningsCount :: nat
  errorsCount :: nat
  optimizationsCount :: nat

text \<open>
  \<open>autoFixedCount\<close> is the field \<^verbatim>\<open>autoFixed\<close> of \<^verbatim>\<open>ConversionStats\<close>: a record cannot
  share a field name with \<^verbatim>\<open>ConversionIssue\<close>.
\<close>

record ConversionIssue =
  lineNumber :: "nat option"
  issueType :: issue_type
  category :: issue_category
  description :: string
  originalText :: "string option"
  convertedText :: "string option"
  autoFixed :: bool

record ConversionResult =
  convertedSQL :: string
  issues :: "ConversionIssue list"
  stats :: ConversionStats

datatype js_error = TypeError

type_synonym acc = "ConversionIssue list \<times> ConversionStats"

text \<open>The arguments a replacement callback receives: the match, its groups, the offset and the whole string.\<close>

record match_args =
  m_match :: string
  m_groups :: captures
  m_offset :: nat
  m_str :: string

type_synonym callback = "match_args \<Rightarrow> acc \<Rightarrow> js_error + string \<times> acc"

definition grp :: "match_args \<Rightarrow> nat \<Rightarrow> string option" where
  \<comment> \<open>a group that took no part in the match is \<^verbatim>\<open>undefined\<close>\<close>
  "grp m n = (if n < length (m_groups m) then m_groups m ! n else None)"

definition js_str :: "string option \<Rightarrow> string" where
  \<comment> \<open>a value interpolated into a template literal\<close>
  "js_str v = (case v of None \<Rightarrow> ''undefined'' | Some s \<Rightarrow> s)"

definition js_or_empty :: "string option \<Rightarrow> string" where
  \<comment> \<open>\<^verbatim>\<open>v || ''\<close>\<close>
  "js_or_empty v = (case v of None \<Rightarrow> [] | Some s \<Rightarrow> s)"

definition js_truthy :: "string option \<Rightarrow> bool" where
  "js_truthy v = (case v of None \<Rightarrow> False | Some s \<Rightarrow> s \<noteq> [])"

definition js_receiver :: "string option \<Rightarrow> js_error + string" where
  \<comment> \<open>the receiver of a method call: calling a method of \<^verbatim>\<open>undefined\<close> throws\<close>
  "js_receiver v = (case v of None \<Rightarrow> Inl TypeError | Some s \<Rightarrow> Inr s)"

section \<open>\<^verbatim>\<open>String.prototype.replace\<close>\<close>

lemma exec_at_le: "exec_at fl rx caps0 rest prev = Some (k, caps) \<Longrightarrow> k \<le> length rest"
  by (auto simp: exec_at_def split: list.splits)

function replace_from ::
  "flags \<Rightarrow> regex \<Rightarrow> captures \<Rightarrow> callback \<Rightarrow> string \<Rightarrow> nat \<Rightarrow> char option \<Rightarrow> string \<Rightarrow> acc \<Rightarrow> js_error + string \<times> acc" where
  "replace_from fl rx caps0 cb str off prev rest a =
     (case exec_at fl rx caps0 rest prev of
        None \<Rightarrow>
          (case rest of
             [] \<Rightarrow> Inr ([], a)
           | c # cs \<Rightarrow>
               (case replace_from fl rx caps0 cb str (Suc off) (Some c) cs a of
                  Inl e \<Rightarrow> Inl e
                | Inr (out, a') \<Rightarrow> Inr (c # out, a')))
      | Some (k, caps) \<Rightarrow>
          (case cb \<lparr>m_match = take k rest, m_groups = caps, m_offset = off, m_str = str\<rparr> a of
             Inl e \<Rightarrow> Inl e
           | Inr (repl, a1) \<Rightarrow>
               if k = 0 then
                 (case rest of
                    [] \<Rightarrow> Inr (repl, a1)
                  | c # cs \<Rightarrow>
                      (case replace_from fl rx caps0 cb str (Suc off) (Some c) cs a1 of
                         Inl e \<Rightarrow> Inl e
                       | Inr (out, a') \<Rightarrow> Inr (repl @ c # out, a')))
               else
                 (case replace_from fl rx caps0 cb str (off + k) (Some (rest ! (k - 1))) (drop k rest) a1 of
                    Inl e \<Rightarrow> Inl e
                  | Inr (out, a') \<Rightarrow> Inr (repl @ out, a'))))"
  by pat_completeness auto
termination
proof (relation "measure (\<lambda>(fl, rx, caps0, cb, str, off, prev, rest, a). length rest)")
  fix fl rx caps0 cb str off prev rest a x2 k caps x2a repl a1
  assume "exec_at fl rx caps0 rest prev = Some x2" "(k, caps) = x2" "k \<noteq> 0"
  then have "k \<le> length rest" using exec_at_le by metis
  with \<open>k \<noteq> 0\<close>
  show "((fl, rx, caps0, cb, str, off + k, Some (rest ! (k - 1)), drop k rest, a1),
         fl, rx, caps0, cb, str, off, prev, rest, a)
        \<in> measure (\<lambda>(fl, rx, caps0, cb, str, off, prev, rest, a). length rest)"
    by auto
qed auto

definition js_replace :: "flags \<Rightarrow> regex \<Rightarrow> callback \<Rightarrow> string \<Rightarrow> acc \<Rightarrow> js_error + string \<times> acc" where
  \<comment> \<open>\<^verbatim>\<open>str.replace(regex, callback)\<close> with the flag \<^verbatim>\<open>g\<close>: every match, left to right\<close>
  "js_replace fl rx cb str a = replace_from fl rx (no_captures rx) cb str 0 None str a"

function replace_str_from :: "flags \<Rightarrow> regex \<Rightarrow> captures \<Rightarrow> string \<Rightarrow> char option \<Rightarrow> string \<Rightarrow> string" where
  "replace_str_from fl rx caps0 repl prev rest =
     (case exec_at fl rx caps0 rest prev of
        None \<Rightarrow> (case rest of [] \<Rightarrow> [] | c # cs \<Rightarrow> c # replace_str_from fl rx caps0 repl (Some c) cs)
      | Some (k, caps) \<Rightarrow>
          if k = 0 then (case rest of [] \<Rightarrow> repl | c # cs \<Rightarrow> repl @ c # replace_str_from fl rx caps0 repl (Some c) cs)
          else repl @ replace_str_from fl rx caps0 repl (Some (rest ! (k - 1))) (drop k rest))"
  by pat_completeness auto
termination
proof (relation "measure (\<lambda>(fl, rx, caps0, repl, prev, rest). length rest)")
  fix fl rx caps0 repl prev rest x2 k caps
  assume "exec_at fl rx caps0 rest prev = Some x2" "(k, caps) = x2" "k \<noteq> 0"
  then have "k \<le> length rest" using exec_at_le by metis
  with \<open>k \<noteq> 0\<close>
  show "((fl, rx, caps0, repl, Some (rest ! (k - 1)), drop k rest), fl, rx, caps0, repl, prev, rest)
        \<in> measure (\<lambda>(fl, rx, caps0, repl, prev, rest). length rest)"
    by auto
qed auto

definition js_replace_str :: "flags \<Rightarrow> regex \<Rightarrow> string \<Rightarrow> string \<Rightarrow> string" where
  \<comment> \<open>\<^verbatim>\<open>str.replace(regex, text)\<close> with the flag \<^verbatim>\<open>g\<close>; no text used here holds a dollar sign\<close>
  "js_replace_str fl rx str repl = replace_str_from fl rx (no_captures rx) repl None str"

definition js_replace_first_str :: "flags \<Rightarrow> regex \<Rightarrow> string \<Rightarrow> string \<Rightarrow> string" where
  \<comment> \<open>\<^verbatim>\<open>str.replace(regex, text)\<close> without the flag \<^verbatim>\<open>g\<close>: the leftmost match only\<close>
  "js_replace_first_str fl rx str repl =
     (case search fl rx (no_captures rx) 0 None str of
        None \<Rightarrow> str
      | Some (off, k, caps) \<Rightarrow> take off str @ repl @ drop (off + k) str)"

section \<open>The helpers \<^verbatim>\<open>getLineNumber\<close> and \<^verbatim>\<open>addIssue\<close>\<close>

definition getLineNumber :: "string \<Rightarrow> string \<Rightarrow> nat" where
  "getLineNumber content searchText =
     (let index = js_indexOf content searchText
      in if index = - 1 then 1
         else length (js_split_nl (js_substring content 0 index)))"

definition addIssue :: "acc \<Rightarrow> ConversionIssue \<Rightarrow> acc" where
  "addIssue a issue =
     (let (iss, st) = a;
          st1 = (if autoFixed issue then st\<lparr>autoFixedCount := autoFixedCount st + 1\<rparr> else st);
          st2 = (case issueType issue of
                   Warning \<Rightarrow> st1\<lparr>warningsCount := warningsCount st1 + 1\<rparr>
                 | Error \<Rightarrow> st1\<lparr>errorsCount := errorsCount st1 + 1\<rparr>
                 | Info \<Rightarrow> st1\<lparr>optimizationsCount := optimizationsCount st1 + 1\<rparr>)
      in (iss @ [issue], st2))"

text \<open>The rules that do not call \<^verbatim>\<open>addIssue\<close> push the issue and bump two counters themselves.\<close>

definition push_warning :: "acc \<Rightarrow> ConversionIssue \<Rightarrow> acc" where
  \<comment> \<open>\<^verbatim>\<open>issues.push(issue); stats.warningsCount++; stats.autoFixed++;\<close>\<close>
  "push_warning a issue =
     (let (iss, st) = a
      in (iss @ [issue], st\<lparr>warningsCount := warningsCount st + 1, autoFixedCount := autoFixedCount st + 1\<rparr>))"

definition push_optimization :: "acc \<Rightarrow> ConversionIssue \<Rightarrow> acc" where
  \<comment> \<open>\<^verbatim>\<open>issues.push(issue); stats.optimizationsCount++; stats.autoFixed++;\<close>\<close>
  "push_optimization a issue =
     (let (iss, st) = a
      in (iss @ [issue], st\<lparr>optimizationsCount := optimizationsCount st + 1, autoFixedCount := autoFixedCount st + 1\<rparr>))"

section \<open>The rules of \<^verbatim>\<open>convertMySQLToMariaDB\<close>, in source order\<close>

text \<open>
  Each rule is \<^verbatim>\<open>convertedSQL = convertedSQL.replace(regex, callback)\<close>: the regular
  expression is given with its source text, the callback returns the replacement and
  the issues and counters it has added.  \<open>sqlContent\<close> is the input of the conversion,
  which the line lookup reads.
\<close>

definition gi :: flags where
  "gi = \<lparr>ignoreCase = True, multiline = False\<rparr>"

definition g_only :: flags where
  "g_only = \<lparr>ignoreCase = False, multiline = False\<rparr>"

definition gim :: flags where
  "gim = \<lparr>ignoreCase = True, multiline = True\<rparr>"

definition gm :: flags where
  "gm = \<lparr>ignoreCase = False, multiline = True\<rparr>"

definition sp :: regex where "sp = Cls [CSpace]"

definition sp_star :: regex where "sp_star = Star (Cls [CSpace])"

definition sp_plus :: regex where "sp_plus = Plus (Cls [CSpace])"

definition dg_plus :: regex where "dg_plus = Plus (Cls [CDigit])"

definition wd_plus :: regex where "wd_plus = Plus (Cls [CWord])"

definition bq :: char where "bq = CHR 0x60"

definition sq :: char where "sq = CHR 0x27"

definition dq :: char where "dq = CHR 0x22"

definition nl :: char where "nl = CHR 0x0A"

definition replace_rule :: "flags \<Rightarrow> regex \<Rightarrow> callback \<Rightarrow> ConversionResult \<Rightarrow> js_error + ConversionResult" where
  "replace_rule fl rx cb st =
     (case js_replace fl rx cb (convertedSQL st) (issues st, stats st) of
        Inl e \<Rightarrow> Inl e
      | Inr (out, (iss, ss)) \<Rightarrow> Inr \<lparr>convertedSQL = out, issues = iss, stats = ss\<rparr>)"

subsection \<open>Collations\<close>

definition mysqlCollationMap :: "(string \<times> string) list" where
  "mysqlCollationMap =
   [(''utf8mb4_0900_ai_ci'', ''utf8mb4_unicode_ci''),
    (''utf8mb4_0900_as_ci'', ''utf8mb4_unicode_ci''),
    (''utf8mb4_0900_as_cs'', ''utf8mb4_bin''),
    (''utf8mb4_0900_bin'', ''utf8mb4_bin''),
    (''utf8mb4_cs_0900_ai_ci'', ''utf8mb4_unicode_ci''),
    (''utf8mb4_cs_0900_as_cs'', ''utf8mb4_bin''),
    (''utf8mb4_da_0900_ai_ci'', ''utf8mb4_unicode_ci''),
    (''utf8mb4_da_0900_as_cs'', ''utf8mb4_bin''),
    (''utf8mb4_de_pb_0900_ai_ci'', ''utf8mb4_unicode_ci''),
    (''utf8mb4_de_pb_0900_as_cs'', ''utf8mb4_bin''),
    (''utf8mb4_eo_0900_ai_ci'', ''utf8mb4_unicode_ci''),
    (''utf8mb4_eo_0900_as_cs'', ''utf8mb4_bin''),
    (''utf8mb4_es_0900_ai_ci'', ''utf8mb4_unicode_ci''),
    (''utf8mb4_es_0900_as_cs'', ''utf8mb4_bin''),
    (''utf8mb4_es_trad_0900_ai_ci'', ''utf8mb4_unicode_ci''),
    (''utf8mb4_es_trad_0900_as_cs'', ''utf8mb4_bin''),
    (''utf8mb4_et_0900_ai_ci'', ''utf8mb4_unicode_ci''),
    (''utf8mb4_et_0900_as_cs'', ''utf8mb4_bin''),
    (''utf8mb4_hr_0900_ai_ci'', ''utf8mb4_unicode_ci''),
    (''utf8mb4_hr_0900_as_cs'', ''utf8mb4_bin''),
    (''utf8mb4_hu_0900_ai_ci'', ''utf8mb4_unicode_ci''),
    (''utf8mb4_hu_0900_as_cs'', ''utf8mb4_bin''),
    (''utf8mb4_is_0900_ai_ci'', ''utf8mb4_unicode_ci''),
    (''utf8mb4_is_0900_as_cs'', ''utf8mb4_bin''),
    (''utf8mb4_ja_0900_as_cs'', ''utf8mb4_bin''),
    (''utf8mb4_ja_0900_as_cs_ks'', ''utf8mb4_bin''),
    (''utf8mb4_la_0900_ai_ci'', ''utf8mb4_unicode_ci''),
    (''utf8mb4_la_0900_as_cs'', ''utf8mb4_bin''),
    (''utf8mb4_lt_0900_ai_ci'', ''utf8mb4_unicode_ci''),
    (''utf8mb4_lt_0900_as_cs'', ''utf8mb4_bin''),
    (''utf8mb4_lv_0900_ai_ci'', ''utf8mb4_unicode_ci''),
    (''utf8mb4_lv_0900_as_cs'', ''utf8mb4_bin''),
    (''utf8mb4_pl_0900_ai_ci'', ''utf8mb4_unicode_ci''),
    (''utf8mb4_pl_0900_as_cs'', ''utf8mb4_bin''),
    (''utf8mb4_ro_0900_ai_ci'', ''utf8mb4_unicode_ci''),
    (''utf8mb4_ro_0900_as_cs'', ''utf8mb4_bin''),
    (''utf8mb4_ru_0900_ai_ci'', ''utf8mb4_unicode_ci''),
    (''utf8mb4_ru_0900_as_cs'', ''utf8mb4_bin''),
    (''utf8mb4_sk_0900_ai_ci'', ''utf8mb4_unicode_ci''),
    (''utf8mb4_sk_0900_as_cs'', ''utf8mb4_bin''),
    (''utf8mb4_sl_0900_ai_ci'', ''utf8mb4_unicode_ci''),
    (''utf8mb4_sl_0900_as_cs'', ''utf8mb4_bin''),
    (''utf8mb4_sv_0900_ai_ci'', ''utf8mb4_unicode_ci''),
    (''utf8mb4_sv_0900_as_cs'', ''utf8mb4_bin''),
    (''utf8mb4_tr_0900_ai_ci'', ''utf8mb4_unicode_ci''),
    (''utf8mb4_tr_0900_as_cs'', ''utf8mb4_bin''),
    (''utf8mb4_vi_0900_ai_ci'', ''utf8mb4_unicode_ci''),
    (''utf8mb4_vi_0900_as_cs'', ''utf8mb4_bin''),
    (''utf8mb4_zh_0900_as_cs'', ''utf8mb4_bin''),
    (''utf8_0900_ai_ci'', ''utf8mb4_unicode_ci''),
    (''utf8_0900_as_ci'', ''utf8mb4_unicode_ci''),
    (''utf8_0900_as_cs'', ''utf8mb4_bin''),
    (''utf8_0900_bin'', ''utf8mb4_bin'')]"

definition re_collation :: "string \<Rightarrow> regex" where
  \<comment> \<open>\<^verbatim>\<open>new RegExp(`\\b${mysqlCollation}\\b`, 'gi')\<close>\<close>
  "re_collation mysqlCollation = seqs [WordB, Lit mysqlCollation, WordB]"

definition cb_collation :: "string \<Rightarrow> string \<Rightarrow> callback" where
  "cb_collation sqlContent mariadbCollation m a =
     Inr (mariadbCollation,
          addIssue a
            \<lparr>lineNumber = Some (getLineNumber sqlContent (m_match m)),
             issueType = Warning, category = Compatibility,
             description = ''Replaced MySQL 8.0+ collation '' @ m_match m @
                           '' with MariaDB 10.3 compatible '' @ mariadbCollation,
             originalText = Some (m_match m), convertedText = Some mariadbCollation,
             autoFixed = True\<rparr>)"

definition rule_collation :: "string \<Rightarrow> string \<times> string \<Rightarrow> ConversionResult \<Rightarrow> js_error + ConversionResult" where
  "rule_collation sqlContent entry =
     replace_rule gi (re_collation (fst entry)) (cb_collation sqlContent (snd entry))"

subsection \<open>Session setup, DEFINER, dump comments\<close>

definition re_set_names :: regex where
  \<comment> \<open>\<^verbatim>\<open>/SET\s+NAMES\s+utf8\b(?!\s*mb4)/gi\<close>\<close>
  "re_set_names =
     seqs [Lit ''SET'', sp_plus, Lit ''NAMES'', sp_plus, Lit ''utf8'', WordB,
           NLook (seqs [sp_star, Lit ''mb4''])]"

definition cb_set_names :: "string \<Rightarrow> callback" where
  "cb_set_names sqlContent m a =
     (let replacement = ''SET NAMES utf8mb4''
      in Inr (replacement,
          addIssue a
            \<lparr>lineNumber = Some (getLineNumber sqlContent (m_match m)),
             issueType = Warning, category = Compatibility,
             description = ''Upgraded SET NAMES utf8 to utf8mb4 for consistent character set handling'',
             originalText = Some (m_match m), convertedText = Some replacement,
             autoFixed = True\<rparr>))"

definition re_definer :: regex where
  \<comment> \<open>\<^verbatim>\<open>/DEFINER\s*=\s*[^@]*@[^\s]*\s+/gi\<close>\<close>
  "re_definer =
     seqs [Lit ''DEFINER'', sp_star, Lit ''='', sp_star, Star (NCls [CC (CHR ''@'')]), Lit ''@'',
           Star (NCls [CSpace]), sp_plus]"

definition cb_definer :: "string \<Rightarrow> callback" where
  "cb_definer sqlContent m a =
     Inr ([],
          addIssue a
            \<lparr>lineNumber = Some (getLineNumber sqlContent (m_match m)),
             issueType = Warning, category = Compatibility,
             description = ''Removed DEFINER clause to prevent import failures due to missing user accounts'',
             originalText = Some (js_trim (m_match m)), convertedText = Some ''-- Removed DEFINER'',
             autoFixed = True\<rparr>)"

definition re_dumping :: regex where
  \<comment> \<open>\<^verbatim>\<open>/-- Dumping\s+(structure|data)\s+for\s+table[^\n]*\n/gi\<close>\<close>
  "re_dumping =
     seqs [Lit ''-- Dumping'', sp_plus, Group 1 (Alt (Lit ''structure'') (Lit ''data'')), sp_plus,
           Lit ''for'', sp_plus, Lit ''table'', Star (NCls [CC nl]), Lit [nl]]"

definition cb_dumping :: "string \<Rightarrow> callback" where
  "cb_dumping sqlContent m a =
     Inr ([],
          addIssue a
            \<lparr>lineNumber = Some (getLineNumber sqlContent (m_match m)),
             issueType = Info, category = Compatibility,
             description = ''Removed HeidiSQL dump comment for cleaner structure'',
             originalText = Some (js_trim (m_match m)), convertedText = Some ''-- Table structure cleaned'',
             autoFixed = True\<rparr>)"

subsection \<open>Conditional comments\<close>

definition re_version_comment :: regex where
  \<comment> \<open>\<^verbatim>\<open>/\/\*!(\d+)\s+([\s\S]*?)\*\//g\<close>\<close>
  "re_version_comment =
     seqs [Lit ''/*!'', Group 1 dg_plus, sp_plus, Group 2 (LStar (Cls [CSpace, CNSpace])), Lit ''*/'']"

definition ci :: flags where
  \<comment> \<open>the flag \<^verbatim>\<open>i\<close> alone, for \<^verbatim>\<open>test\<close>\<close>
  "ci = \<lparr>ignoreCase = True, multiline = False\<rparr>"

definition problematicHints :: "regex list" where
  \<comment> \<open>\<^verbatim>\<open>/^@@/i, /^SET\s+@@/i, /USE_INDEX/i, /FORCE_INDEX/i, /IGNORE_INDEX/i, /SQL_CALC_FOUND_ROWS/i\<close>\<close>
  "problematicHints =
     [seqs [Bol, Lit ''@@''],
      seqs [Bol, Lit ''SET'', sp_plus, Lit ''@@''],
      Lit ''USE_INDEX'',
      Lit ''FORCE_INDEX'',
      Lit ''IGNORE_INDEX'',
      Lit ''SQL_CALC_FOUND_ROWS'']"

definition isProblematic :: "string \<Rightarrow> bool" where
  "isProblematic trimmedContent = list_ex (\<lambda>pattern. js_test ci pattern trimmedContent) problematicHints"

definition cb_version_comment :: "string \<Rightarrow> callback" where
  "cb_version_comment sqlContent m a =
     (case js_receiver (grp m 2) of
        Inl e \<Rightarrow> Inl e
      | Inr content \<Rightarrow>
          let lineNumber = getLineNumber sqlContent (m_match m);
              trimmedContent = js_trim content
          in if isProblematic trimmedContent then
               Inr ([],
                 addIssue a
                   \<lparr>lineNumber = Some lineNumber, issueType = Warning, category = Compatibility,
                    description = ''Removed problematic MySQL-specific optimizer hint or setting'',
                    originalText = Some (m_match m), convertedText = Some ''-- Removed problematic hint'',
                    autoFixed = True\<rparr>)
             else
               Inr (m_match m,
                 addIssue a
                   \<lparr>lineNumber = Some lineNumber, issueType = Info, category = Compatibility,
                    description = ''MySQL version comment preserved with conditional semantics for compatibility'',
                    originalText = Some (m_match m), convertedText = None,
                    autoFixed = False\<rparr>))"

subsection \<open>CREATE TABLE IF NOT EXISTS\<close>

definition re_create_if_not_exists :: regex where
  \<comment> \<open>\<^verbatim>\<open>/CREATE\s+TABLE\s+IF\s+NOT\s+EXISTS\s+((?:`[^`]+`\.)?`[^`]+`|\w+)/gi\<close>\<close>
  "re_create_if_not_exists =
     seqs [Lit ''CREATE'', sp_plus, Lit ''TABLE'', sp_plus, Lit ''IF'', sp_plus, Lit ''NOT'', sp_plus,
           Lit ''EXISTS'', sp_plus,
           Group 1 (Alt (seqs [Opt (seqs [Lit [bq], Plus (NCls [CC bq]), Lit [bq], Lit ''.'']),
                               Lit [bq], Plus (NCls [CC bq]), Lit [bq]])
                        wd_plus)]"

definition cb_create_if_not_exists :: "string \<Rightarrow> callback" where
  "cb_create_if_not_exists sqlContent m a =
     Inr (m_match m,
          addIssue a
            \<lparr>lineNumber = Some (getLineNumber sqlContent (m_match m)),
             issueType = Info, category = Compatibility,
             description = ''CREATE TABLE IF NOT EXISTS is supported in MariaDB 10.3 - keeping original syntax for data safety'',
             originalText = Some (m_match m), convertedText = None,
             autoFixed = False\<rparr>)"

subsection \<open>Charset, index hints, system variables, session statements\<close>

definition re_latin1 :: regex where
  \<comment> \<open>\<^verbatim>\<open>/CHARSET=latin1\s+COLLATE=latin1_swedish_ci/gi\<close>\<close>
  "re_latin1 = seqs [Lit ''CHARSET=latin1'', sp_plus, Lit ''COLLATE=latin1_swedish_ci'']"

definition cb_latin1 :: "string \<Rightarrow> callback" where
  "cb_latin1 sqlContent m a =
     (let replacement = ''CHARSET=utf8mb4 COLLATE=utf8mb4_general_ci''
      in Inr (replacement,
          push_warning a
            \<lparr>lineNumber = Some (getLineNumber sqlContent (m_match m)),
             issueType = Warning, category = Compatibility,
             description = ''Converted latin1_swedish_ci to utf8mb4_general_ci for better MariaDB compatibility'',
             originalText = Some (m_match m), convertedText = Some replacement,
             autoFixed = True\<rparr>))"

definition re_using_btree :: regex where
  \<comment> \<open>\<^verbatim>\<open>/\s+USING\s+BTREE/gi\<close>\<close>
  "re_using_btree = seqs [sp_plus, Lit ''USING'', sp_plus, Lit ''BTREE'']"

definition cb_using_btree :: "string \<Rightarrow> callback" where
  "cb_using_btree sqlContent m a =
     Inr ([],
          push_optimization a
            \<lparr>lineNumber = Some (getLineNumber sqlContent (m_match m)),
             issueType = Info, category = Compatibility,
             description = ''Removed USING BTREE index hint for MariaDB compatibility'',
             originalText = Some (js_trim (m_match m)), convertedText = Some ''-- Removed index hint'',
             autoFixed = True\<rparr>)"

definition re_local_infile :: regex where
  \<comment> \<open>\<^verbatim>\<open>/SET\s+@@global\.local_infile\s*=\s*[^;]+;?\s*/gi\<close>\<close>
  "re_local_infile =
     seqs [Lit ''SET'', sp_plus, Lit ''@@global.local_infile'', sp_star, Lit ''='', sp_star,
           Plus (NCls [CC (CHR '';'')]), Opt (Lit '';''), sp_star]"

definition cb_local_infile :: "string \<Rightarrow> callback" where
  "cb_local_infile sqlContent m a =
     Inr (''-- '' @ js_trim (m_match m) @ '' -- Removed for MariaDB compatibility'' @ [nl],
          push_warning a
            \<lparr>lineNumber = Some (getLineNumber sqlContent (m_match m)),
             issueType = Warning, category = Compatibility,
             description = ''Removed MySQL-specific @@global.local_infile setting not compatible with MariaDB'',
             originalText = Some (js_trim (m_match m)),
             convertedText = Some ''-- Removed MySQL-specific setting'',
             autoFixed = True\<rparr>)"

definition re_foreign_key_checks :: regex where
  \<comment> \<open>\<^verbatim>\<open>/SET\s+FOREIGN_KEY_CHECKS\s*=\s*([01]);?\s*/gi\<close>\<close>
  "re_foreign_key_checks =
     seqs [Lit ''SET'', sp_plus, Lit ''FOREIGN_KEY_CHECKS'', sp_star, Lit ''='', sp_star,
           Group 1 (Cls [CC (CHR ''0''), CC (CHR ''1'')]), Opt (Lit '';''), sp_star]"

definition cb_foreign_key_checks :: "string \<Rightarrow> callback" where
  "cb_foreign_key_checks sqlContent m a =
     (let replacement = ''SET foreign_key_checks = '' @ js_str (grp m 1) @ '';''
      in Inr (replacement @ [nl],
          push_optimization a
            \<lparr>lineNumber = Some (getLineNumber sqlContent (m_match m)),
             issueType = Info, category = Compatibility,
             description = ''Updated FOREIGN_KEY_CHECKS syntax for MariaDB compatibility'',
             originalText = Some (js_trim (m_match m)), convertedText = Some replacement,
             autoFixed = True\<rparr>))"

definition re_sql_mode :: regex where
  \<comment> \<open>\<^verbatim>\<open>/SET\s+SQL_MODE\s*=\s*['"]([^'"]*?)['"];?\s*/gi\<close>\<close>
  "re_sql_mode =
     seqs [Lit ''SET'', sp_plus, Lit ''SQL_MODE'', sp_star, Lit ''='', sp_star,
           Cls [CC sq, CC dq], Group 1 (LStar (NCls [CC sq, CC dq])), Cls [CC sq, CC dq],
           Opt (Lit '';''), sp_star]"

definition re_no_auto_create_user :: regex where
  \<comment> \<open>\<^verbatim>\<open>/,?\s*NO_AUTO_CREATE_USER\s*,?/gi\<close>\<close>
  "re_no_auto_create_user = seqs [Opt (Lit '',''), sp_star, Lit ''NO_AUTO_CREATE_USER'', sp_star, Opt (Lit '','')]"

definition re_no_engine_substitution :: regex where
  \<comment> \<open>\<^verbatim>\<open>/,?\s*NO_ENGINE_SUBSTITUTION\s*,?/gi\<close>\<close>
  "re_no_engine_substitution =
     seqs [Opt (Lit '',''), sp_star, Lit ''NO_ENGINE_SUBSTITUTION'', sp_star, Opt (Lit '','')]"

definition re_edge_commas :: regex where
  \<comment> \<open>\<^verbatim>\<open>/^,+|,+$/g\<close>\<close>
  "re_edge_commas = Alt (seqs [Bol, Plus (Lit '','')]) (seqs [Plus (Lit '',''), Eol])"

definition re_commas :: regex where
  \<comment> \<open>\<^verbatim>\<open>/,+/g\<close>\<close>
  "re_commas = Plus (Lit '','')"

definition cleanedMode :: "string \<Rightarrow> string" where
  "cleanedMode mode =
     js_replace_str g_only re_commas
       (js_replace_str g_only re_edge_commas
         (js_replace_str gi re_no_engine_substitution
           (js_replace_str gi re_no_auto_create_user mode [])
           [])
         [])
       '',''"

definition cb_sql_mode :: "string \<Rightarrow> callback" where
  "cb_sql_mode sqlContent m a =
     (case js_receiver (grp m 1) of
        Inl e \<Rightarrow> Inl e
      | Inr mode \<Rightarrow>
          let replacement = ''SET SQL_MODE = '' @ [sq] @ cleanedMode mode @ [sq] @ '';''
          in Inr (replacement @ [nl],
               push_warning a
                 \<lparr>lineNumber = Some (getLineNumber sqlContent (m_match m)),
                  issueType = Warning, category = Compatibility,
                  description = ''Cleaned SQL_MODE setting to remove MySQL-specific modes not available in MariaDB'',
                  originalText = Some (js_trim (m_match m)), convertedText = Some replacement,
                  autoFixed = True\<rparr>))"

definition re_lock_tables :: regex where
  \<comment> \<open>\<^verbatim>\<open>/(LOCK\s+TABLES[^;]+;)\s*/gi\<close>\<close>
  "re_lock_tables =
     seqs [Group 1 (seqs [Lit ''LOCK'', sp_plus, Lit ''TABLES'', Plus (NCls [CC (CHR '';'')]), Lit '';'']),
           sp_star]"

definition cb_lock_tables :: "string \<Rightarrow> callback" where
  "cb_lock_tables sqlContent m a =
     Inr (''-- '' @ js_trim (m_match m) @ '' -- Review for MariaDB compatibility'' @ [nl],
          push_warning a
            \<lparr>lineNumber = Some (getLineNumber sqlContent (m_match m)),
             issueType = Warning, category = Compatibility,
             description = ''Commented out LOCK TABLES statement - verify MariaDB compatibility'',
             originalText = Some (js_trim (m_match m)),
             convertedText = Some (''-- '' @ js_trim (m_match m)),
             autoFixed = True\<rparr>)"

definition re_unlock_tables :: regex where
  \<comment> \<open>\<^verbatim>\<open>/(UNLOCK\s+TABLES;)\s*/gi\<close>\<close>
  "re_unlock_tables = seqs [Group 1 (seqs [Lit ''UNLOCK'', sp_plus, Lit ''TABLES;'']), sp_star]"

definition cb_unlock_tables :: "string \<Rightarrow> callback" where
  "cb_unlock_tables sqlContent m a =
     Inr (''-- '' @ js_trim (m_match m) @ '' -- Review for MariaDB compatibility'' @ [nl],
          push_warning a
            \<lparr>lineNumber = Some (getLineNumber sqlContent (m_match m)),
             issueType = Warning, category = Compatibility,
             description = ''Commented out UNLOCK TABLES statement - verify MariaDB compatibility'',
             originalText = Some (js_trim (m_match m)),
             convertedText = Some (''-- '' @ js_trim (m_match m)),
             autoFixed = True\<rparr>)"

definition re_default_character_set :: regex where
  \<comment> \<open>\<^verbatim>\<open>/DEFAULT\s+CHARACTER\s+SET\s+(\w+)(\s+COLLATE\s+\w+)?/gi\<close>\<close>
  "re_default_character_set =
     seqs [Lit ''DEFAULT'', sp_plus, Lit ''CHARACTER'', sp_plus, Lit ''SET'', sp_plus, Group 1 wd_plus,
           Opt (Group 2 (seqs [sp_plus, Lit ''COLLATE'', sp_plus, wd_plus]))]"

definition cb_default_character_set :: "string \<Rightarrow> callback" where
  "cb_default_character_set sqlContent m a =
     (let replacement = ''CHARACTER SET '' @ js_str (grp m 1) @ js_or_empty (grp m 2)
      in Inr (replacement,
          push_optimization a
            \<lparr>lineNumber = Some (getLineNumber sqlContent (m_match m)),
             issueType = Info, category = Compatibility,
             description = ''Updated character set declaration for MariaDB 10.3 compatibility'',
             originalText = Some (m_match m), convertedText = Some replacement,
             autoFixed = True\<rparr>))"

definition re_default_charset :: regex where
  \<comment> \<open>\<^verbatim>\<open>/DEFAULT\s+CHARSET\s*=\s*(\w+)/gi\<close>\<close>
  "re_default_charset =
     seqs [Lit ''DEFAULT'', sp_plus, Lit ''CHARSET'', sp_star, Lit ''='', sp_star, Group 1 wd_plus]"

definition cb_default_charset :: "string \<Rightarrow> callback" where
  "cb_default_charset sqlContent m a =
     (let replacement = ''CHARACTER SET='' @ js_str (grp m 1)
      in Inr (replacement,
          addIssue a
            \<lparr>lineNumber = Some (getLineNumber sqlContent (m_match m)),
             issueType = Warning, category = Syntax,
             description = ''Converted DEFAULT CHARSET to CHARACTER SET for MariaDB compatibility'',
             originalText = Some (m_match m), convertedText = Some replacement,
             autoFixed = True\<rparr>))"

definition re_engine_innodb :: regex where
  \<comment> \<open>\<^verbatim>\<open>/ENGINE\s*=\s*InnoDB/gi\<close>\<close>
  "re_engine_innodb = seqs [Lit ''ENGINE'', sp_star, Lit ''='', sp_star, Lit ''InnoDB'']"

definition cb_engine_innodb :: "string \<Rightarrow> callback" where
  "cb_engine_innodb sqlContent m a =
     Inr (m_match m,
          addIssue a
            \<lparr>lineNumber = Some (getLineNumber sqlContent (m_match m)),
             issueType = Info, category = Compatibility,
             description = ''Verified InnoDB engine declaration is MariaDB 10.3 compatible'',
             originalText = Some (m_match m), convertedText = Some (m_match m),
             autoFixed = True\<rparr>)"

definition re_int :: regex where
  \<comment> \<open>\<^verbatim>\<open>/\b(int)\((\d+)\)/gi\<close>\<close>
  "re_int = seqs [WordB, Group 1 (Lit ''int''), Lit ''('', Group 2 dg_plus, Lit '')'']"

definition cb_int :: "string \<Rightarrow> callback" where
  "cb_int sqlContent m a =
     (if grp m 2 = Some ''11'' then
        let replacement = ''int''
        in Inr (replacement,
             addIssue a
               \<lparr>lineNumber = Some (getLineNumber sqlContent (m_match m)),
                issueType = Info, category = Optimization,
                description = ''Simplified int(11) to int for better MariaDB 10.3 compatibility'',
                originalText = Some (m_match m), convertedText = Some replacement,
                autoFixed = True\<rparr>)
      else Inr (m_match m, a))"

subsection \<open>MySQL 8 features: detection and the two rewrites\<close>

definition re_cte :: regex where
  \<comment> \<open>\<^verbatim>\<open>/\bWITH\s+(RECURSIVE\s+)?([\w`]+)\s*\([^)]*\)\s*AS\s*\(/gi\<close>\<close>
  "re_cte =
     seqs [WordB, Lit ''WITH'', sp_plus, Opt (Group 1 (seqs [Lit ''RECURSIVE'', sp_plus])),
           Group 2 (Plus (Cls [CWord, CC bq])), sp_star, Lit ''('', Star (NCls [CC (CHR '')'')]), Lit '')'',
           sp_star, Lit ''AS'', sp_star, Lit ''('']"

definition cb_cte :: "string \<Rightarrow> callback" where
  "cb_cte sqlContent m a =
     Inr (m_match m,
          addIssue a
            \<lparr>lineNumber = Some (getLineNumber sqlContent (m_match m)),
             issueType = Warning, category = Compatibility,
             description = ''CTE (Common Table Expression) detected'' @
                           (if js_truthy (grp m 1) then '' with RECURSIVE'' else []) @
                           '' - MariaDB 10.3 has limited CTE support compared to MySQL 8.0. Verify compatibility.'',
             originalText = Some (js_trim (m_match m)), convertedText = None,
             autoFixed = False\<rparr>)"

definition windowFunctions :: "string list" where
  "windowFunctions =
     [''ROW_NUMBER'', ''RANK'', ''DENSE_RANK'', ''PERCENT_RANK'', ''CUME_DIST'', ''NTILE'', ''LAG'',
      ''LEAD'', ''FIRST_VALUE'', ''LAST_VALUE'', ''NTH_VALUE'']"

definition re_window :: "string \<Rightarrow> regex" where
  \<comment> \<open>\<^verbatim>\<open>new RegExp(`\\b${func}\\s*\\(.*?\\)\\s+OVER\\s*\\(`, 'gi')\<close>\<close>
  "re_window func =
     seqs [WordB, Lit func, sp_star, Lit ''('', LStar Dot, Lit '')'', sp_plus, Lit ''OVER'', sp_star, Lit ''('']"

definition cb_window :: "string \<Rightarrow> string \<Rightarrow> callback" where
  "cb_window sqlContent func m a =
     Inr (m_match m,
          addIssue a
            \<lparr>lineNumber = Some (getLineNumber sqlContent (m_match m)),
             issueType = Info, category = Compatibility,
             description = ''Window function '' @ func @
                           '' detected - verify MariaDB 10.3 supports the specific syntax used'',
             originalText = Some (js_trim (m_match m)), convertedText = None,
             autoFixed = False\<rparr>)"

definition rule_window :: "string \<Rightarrow> string \<Rightarrow> ConversionResult \<Rightarrow> js_error + ConversionResult" where
  "rule_window sqlContent func = replace_rule gi (re_window func) (cb_window sqlContent func)"

definition re_generated :: regex where
  \<comment> \<open>\<^verbatim>\<open>/\bAS\s*\([^)]*\)\s+(VIRTUAL|STORED)\b/gi\<close>\<close>
  "re_generated =
     seqs [WordB, Lit ''AS'', sp_star, Lit ''('', Star (NCls [CC (CHR '')'')]), Lit '')'', sp_plus,
           Group 1 (Alt (Lit ''VIRTUAL'') (Lit ''STORED'')), WordB]"

fun for_each_line :: "(string \<Rightarrow> nat \<Rightarrow> acc \<Rightarrow> acc) \<Rightarrow> string list \<Rightarrow> nat \<Rightarrow> acc \<Rightarrow> acc" where
  \<comment> \<open>\<^verbatim>\<open>lines.forEach((line, index) => ...)\<close>\<close>
  "for_each_line f [] index a = a"
| "for_each_line f (line # ls) index a = for_each_line f ls (Suc index) (f line index a)"

definition line_generated :: "string \<Rightarrow> nat \<Rightarrow> acc \<Rightarrow> acc" where
  "line_generated line index a =
     (if js_test gi re_generated line \<and> \<not> js_startsWith (js_trim line) ''--'' then
        addIssue a
          \<lparr>lineNumber = Some (index + 1), issueType = Warning, category = Compatibility,
           description = ''Generated/computed column detected - verify MariaDB 10.3 syntax compatibility manually'',
           originalText = Some (js_trim line), convertedText = None,
           autoFixed = False\<rparr>
      else a)"

definition lines_rule :: "(string \<Rightarrow> nat \<Rightarrow> acc \<Rightarrow> acc) \<Rightarrow> string \<Rightarrow> ConversionResult \<Rightarrow> js_error + ConversionResult" where
  \<comment> \<open>the lines are those of the input, \<^verbatim>\<open>sqlContent.split('\n')\<close>\<close>
  "lines_rule f sqlContent st =
     (let (iss, ss) = for_each_line f (js_split_nl sqlContent) 0 (issues st, stats st)
      in Inr (st\<lparr>issues := iss, stats := ss\<rparr>))"

definition re_invisible :: regex where
  \<comment> \<open>\<^verbatim>\<open>/(`[^`]+`)\s+([^,)]+)\s+INVISIBLE\b/gi\<close>\<close>
  "re_invisible =
     seqs [Group 1 (seqs [Lit [bq], Plus (NCls [CC bq]), Lit [bq]]), sp_plus,
           Group 2 (Plus (NCls [CC (CHR '',''), CC (CHR '')'')])), sp_plus, Lit ''INVISIBLE'', WordB]"

definition cb_invisible :: "string \<Rightarrow> callback" where
  "cb_invisible sqlContent m a =
     (let replacement = js_str (grp m 1) @ '' '' @ js_str (grp m 2) @
                        '' -- INVISIBLE not supported in MariaDB 10.3''
      in Inr (replacement,
          addIssue a
            \<lparr>lineNumber = Some (getLineNumber sqlContent (m_match m)),
             issueType = Error, category = Compatibility,
             description = ''INVISIBLE column attribute removed - not supported in MariaDB 10.3. Column will be visible.'',
             originalText = Some (m_match m), convertedText = Some replacement,
             autoFixed = True\<rparr>))"

definition re_check :: regex where
  \<comment> \<open>\<^verbatim>\<open>/CONSTRAINT\s+([\w`]+)\s+CHECK\s*\(([^)]+)\)/gi\<close>\<close>
  "re_check =
     seqs [Lit ''CONSTRAINT'', sp_plus, Group 1 (Plus (Cls [CWord, CC bq])), sp_plus, Lit ''CHECK'',
           sp_star, Lit ''('', Group 2 (Plus (NCls [CC (CHR '')'')])), Lit '')'']"

definition cb_check :: "string \<Rightarrow> callback" where
  "cb_check sqlContent m a =
     Inr (m_match m,
          addIssue a
            \<lparr>lineNumber = Some (getLineNumber sqlContent (m_match m)),
             issueType = Info, category = Compatibility,
             description = ''CHECK constraint detected - MariaDB 10.3 supports CHECK constraints with some limitations'',
             originalText = Some (m_match m), convertedText = None,
             autoFixed = False\<rparr>)"

definition jsonFunctions :: "string list" where
  "jsonFunctions =
     [''JSON_EXTRACT'', ''JSON_UNQUOTE'', ''JSON_SET'', ''JSON_INSERT'', ''JSON_REPLACE'', ''JSON_REMOVE'',
      ''JSON_ARRAY'', ''JSON_OBJECT'', ''JSON_ARRAYAGG'', ''JSON_OBJECTAGG'']"

definition re_json_function :: "string \<Rightarrow> regex" where
  \<comment> \<open>\<^verbatim>\<open>new RegExp(`\\b${func}\\s*\\(`, 'gi')\<close>\<close>
  "re_json_function func = seqs [WordB, Lit func, sp_star, Lit ''('']"

definition cb_json_function :: "string \<Rightarrow> string \<Rightarrow> callback" where
  "cb_json_function sqlContent func m a =
     Inr (m_match m,
          addIssue a
            \<lparr>lineNumber = Some (getLineNumber sqlContent (m_match m)),
             issueType = Warning, category = Compatibility,
             description = ''JSON function '' @ func @
                           '' detected - verify MariaDB 10.3 JSON function compatibility'',
             originalText = Some (js_trim (m_match m)), convertedText = None,
             autoFixed = False\<rparr>)"

definition rule_json_function :: "string \<Rightarrow> string \<Rightarrow> ConversionResult \<Rightarrow> js_error + ConversionResult" where
  "rule_json_function sqlContent func =
     replace_rule gi (re_json_function func) (cb_json_function sqlContent func)"

definition re_json_operator :: regex where
  \<comment> \<open>\<^verbatim>\<open>/([\w`\.]+)\s*(->>?)\s*(["'][^"']*["']|\$\.[\w\[\]"'\.$]+)/gi\<close>\<close>
  "re_json_operator =
     seqs [Group 1 (Plus (Cls [CWord, CC bq, CC (CHR ''.'')])), sp_star,
           Group 2 (seqs [Lit ''->'', Opt (Lit ''>'')]), sp_star,
           Group 3 (Alt (seqs [Cls [CC dq, CC sq], Star (NCls [CC dq, CC sq]), Cls [CC dq, CC sq]])
                        (seqs [Lit ''$.'',
                               Plus (Cls [CWord, CC (CHR ''[''), CC (CHR '']''), CC dq, CC sq,
                                          CC (CHR ''.''), CC (CHR ''$'')])]))]"

definition cb_json_operator :: "string \<Rightarrow> callback" where
  "cb_json_operator sqlContent m a =
     (let replacement =
            (if grp m 2 = Some ''->'' then
               ''JSON_EXTRACT('' @ js_str (grp m 1) @ '', '' @ js_str (grp m 3) @ '')''
             else if grp m 2 = Some ''->>'' then
               ''JSON_UNQUOTE(JSON_EXTRACT('' @ js_str (grp m 1) @ '', '' @ js_str (grp m 3) @ ''))''
             else m_match m)
      in Inr (replacement,
          addIssue a
            \<lparr>lineNumber = Some (getLineNumber sqlContent (m_match m)),
             issueType = Warning, category = Compatibility,
             description = ''Converted JSON operator '' @ js_str (grp m 2) @
                           '' to MariaDB 10.3 compatible function'',
             originalText = Some (m_match m), convertedText = Some replacement,
             autoFixed = True\<rparr>))"

definition re_fulltext :: regex where
  \<comment> \<open>\<^verbatim>\<open>/FULLTEXT\s+(INDEX|KEY)\s+([\w`]+)?\s*\(([^)]+)\)(?:\s+WITH\s+PARSER\s+(\w+))?/gi\<close>\<close>
  "re_fulltext =
     seqs [Lit ''FULLTEXT'', sp_plus, Group 1 (Alt (Lit ''INDEX'') (Lit ''KEY'')), sp_plus,
           Opt (Group 2 (Plus (Cls [CWord, CC bq]))), sp_star, Lit ''('',
           Group 3 (Plus (NCls [CC (CHR '')'')])), Lit '')'',
           Opt (seqs [sp_plus, Lit ''WITH'', sp_plus, Lit ''PARSER'', sp_plus, Group 4 wd_plus])]"

definition cb_fulltext :: "string \<Rightarrow> callback" where
  "cb_fulltext sqlContent m a =
     (let lineNumber = getLineNumber sqlContent (m_match m)
      in if js_truthy (grp m 4) \<and> js_toLowerCase (js_or_empty (grp m 4)) \<noteq> ''ngram'' then
           let replacement = ''FULLTEXT '' @ js_str (grp m 1) @ '' '' @ js_or_empty (grp m 2) @
                             '' ('' @ js_str (grp m 3) @ '') -- Parser '' @ js_str (grp m 4) @
                             '' may not be available''
           in Inr (replacement,
                addIssue a
                  \<lparr>lineNumber = Some lineNumber, issueType = Warning, category = Compatibility,
                   description = ''FULLTEXT index parser '' @ js_str (grp m 4) @
                                 '' may not be available in MariaDB 10.3'',
                   originalText = Some (m_match m), convertedText = Some replacement,
                   autoFixed = True\<rparr>)
         else
           Inr (m_match m,
                addIssue a
                  \<lparr>lineNumber = Some lineNumber, issueType = Info, category = Compatibility,
                   description = ''FULLTEXT index syntax is compatible with MariaDB 10.3'',
                   originalText = Some (m_match m), convertedText = None,
                   autoFixed = False\<rparr>))"

definition re_partition :: regex where
  \<comment> \<open>\<^verbatim>\<open>/PARTITION\s+BY\s+(RANGE|LIST|HASH|KEY)\s*\(([^)]+)\)(?:\s+PARTITIONS\s+(\d+))?/gi\<close>\<close>
  "re_partition =
     seqs [Lit ''PARTITION'', sp_plus, Lit ''BY'', sp_plus,
           Group 1 (alts [Lit ''RANGE'', Lit ''LIST'', Lit ''HASH'', Lit ''KEY'']), sp_star, Lit ''('',
           Group 2 (Plus (NCls [CC (CHR '')'')])), Lit '')'',
           Opt (seqs [sp_plus, Lit ''PARTITIONS'', sp_plus, Group 3 dg_plus])]"

definition cb_partition :: "string \<Rightarrow> callback" where
  "cb_partition sqlContent m a =
     Inr (m_match m,
          addIssue a
            \<lparr>lineNumber = Some (getLineNumber sqlContent (m_match m)),
             issueType = Info, category = Compatibility,
             description = ''Table partitioning ('' @ js_str (grp m 1) @
                           '') detected - verify MariaDB 10.3 partitioning compatibility'',
             originalText = Some (m_match m), convertedText = None,
             autoFixed = False\<rparr>)"

definition line_json :: "string \<Rightarrow> nat \<Rightarrow> acc \<Rightarrow> acc" where
  "line_json line index a =
     (if js_includes (js_toLowerCase line) ''json'' \<and> \<not> js_startsWith (js_trim line) ''--'' then
        addIssue a
          \<lparr>lineNumber = Some (index + 1), issueType = Warning, category = Compatibility,
           description = ''JSON column type detected - MariaDB 10.3 JSON support is functional but may have differences from MySQL 8.0'',
           originalText = Some (js_trim line), convertedText = None,
           autoFixed = False\<rparr>
      else a)"

subsection \<open>Statements that are confirmed as they are\<close>

definition re_auto_increment :: regex where
  \<comment> \<open>\<^verbatim>\<open>/AUTO_INCREMENT\s*=\s*(\d+)/gi\<close>\<close>
  "re_auto_increment = seqs [Lit ''AUTO_INCREMENT'', sp_star, Lit ''='', sp_star, Group 1 dg_plus]"

definition cb_auto_increment :: "string \<Rightarrow> callback" where
  "cb_auto_increment sqlContent m a =
     Inr (m_match m,
          addIssue a
            \<lparr>lineNumber = Some (getLineNumber sqlContent (m_match m)),
             issueType = Info, category = Compatibility,
             description = ''AUTO_INCREMENT value '' @ js_str (grp m 1) @ '' is compatible with MariaDB 10.3'',
             originalText = Some (m_match m), convertedText = Some (m_match m),
             autoFixed = True\<rparr>)"

definition re_timestamp :: regex where
  \<comment> \<open>\<^verbatim>\<open>/timestamp\s+NOT\s+NULL\s+DEFAULT\s+CURRENT_TIMESTAMP\s+ON\s+UPDATE\s+CURRENT_TIMESTAMP/gi\<close>\<close>
  "re_timestamp =
     seqs [Lit ''timestamp'', sp_plus, Lit ''NOT'', sp_plus, Lit ''NULL'', sp_plus, Lit ''DEFAULT'', sp_plus,
           Lit ''CURRENT_TIMESTAMP'', sp_plus, Lit ''ON'', sp_plus, Lit ''UPDATE'', sp_plus,
           Lit ''CURRENT_TIMESTAMP'']"

definition cb_timestamp :: "string \<Rightarrow> callback" where
  "cb_timestamp sqlContent m a =
     (let replacement = ''timestamp NOT NULL DEFAULT CURRENT_TIMESTAMP ON UPDATE CURRENT_TIMESTAMP''
      in Inr (replacement,
          push_optimization a
            \<lparr>lineNumber = Some (getLineNumber sqlContent (m_match m)),
             issueType = Info, category = Compatibility,
             description = ''Verified timestamp with CURRENT_TIMESTAMP is MariaDB compatible'',
             originalText = Some (m_match m), convertedText = Some replacement,
             autoFixed = True\<rparr>))"

definition re_disable_keys :: regex where
  \<comment> \<open>\<^verbatim>\<open>/(ALTER\s+TABLE\s+[^\s]+\s+DISABLE\s+KEYS;)\s*/gi\<close>\<close>
  "re_disable_keys =
     seqs [Group 1 (seqs [Lit ''ALTER'', sp_plus, Lit ''TABLE'', sp_plus, Plus (NCls [CSpace]), sp_plus,
                          Lit ''DISABLE'', sp_plus, Lit ''KEYS;'']),
           sp_star]"

definition cb_disable_keys :: "string \<Rightarrow> callback" where
  "cb_disable_keys sqlContent m a =
     Inr (m_match m,
          push_optimization a
            \<lparr>lineNumber = Some (getLineNumber sqlContent (m_match m)),
             issueType = Info, category = Compatibility,
             description = ''DISABLE KEYS statement maintained for MariaDB compatibility'',
             originalText = Some (js_trim (m_match m)), convertedText = Some (js_trim (m_match m)),
             autoFixed = True\<rparr>)"

definition re_enable_keys :: regex where
  \<comment> \<open>\<^verbatim>\<open>/(ALTER\s+TABLE\s+[^\s]+\s+ENABLE\s+KEYS;)\s*/gi\<close>\<close>
  "re_enable_keys =
     seqs [Group 1 (seqs [Lit ''ALTER'', sp_plus, Lit ''TABLE'', sp_plus, Plus (NCls [CSpace]), sp_plus,
                          Lit ''ENABLE'', sp_plus, Lit ''KEYS;'']),
           sp_star]"

definition cb_enable_keys :: "string \<Rightarrow> callback" where
  "cb_enable_keys sqlContent m a =
     Inr (m_match m,
          push_optimization a
            \<lparr>lineNumber = Some (getLineNumber sqlContent (m_match m)),
             issueType = Info, category = Compatibility,
             description = ''ENABLE KEYS statement maintained for MariaDB compatibility'',
             originalText = Some (js_trim (m_match m)), convertedText = Some (js_trim (m_match m)),
             autoFixed = True\<rparr>)"

subsection \<open>utf8 to utf8mb4, and the rules guarded by a look back for a DDL keyword\<close>

definition re_charset_utf8 :: regex where
  \<comment> \<open>\<^verbatim>\<open>/\bCHARSET\s*=?\s*utf8\b(?!mb4)/gi\<close>\<close>
  "re_charset_utf8 =
     seqs [WordB, Lit ''CHARSET'', sp_star, Opt (Lit ''=''), sp_star, Lit ''utf8'', WordB, NLook (Lit ''mb4'')]"

definition re_utf8_word :: regex where
  \<comment> \<open>\<^verbatim>\<open>/utf8\b/\<close>, without flags\<close>
  "re_utf8_word = seqs [Lit ''utf8'', WordB]"

definition cb_charset_utf8 :: "string \<Rightarrow> callback" where
  "cb_charset_utf8 sqlContent m a =
     (let replacement = js_replace_first_str g_only re_utf8_word (m_match m) ''utf8mb4''
      in Inr (replacement,
          push_warning a
            \<lparr>lineNumber = Some (getLineNumber sqlContent (m_match m)),
             issueType = Warning, category = Compatibility,
             description = ''Upgraded utf8 to utf8mb4 for full Unicode support in MariaDB 10.3'',
             originalText = Some (m_match m), convertedText = Some replacement,
             autoFixed = True\<rparr>))"

definition re_create_table :: regex where
  \<comment> \<open>\<^verbatim>\<open>/CREATE\s+TABLE/i\<close>\<close>
  "re_create_table = seqs [Lit ''CREATE'', sp_plus, Lit ''TABLE'']"

definition re_create_or_alter_table :: regex where
  \<comment> \<open>\<^verbatim>\<open>/CREATE\s+TABLE|ALTER\s+TABLE/i\<close>\<close>
  "re_create_or_alter_table =
     Alt (seqs [Lit ''CREATE'', sp_plus, Lit ''TABLE'']) (seqs [Lit ''ALTER'', sp_plus, Lit ''TABLE''])"

definition beforeMatch :: "match_args \<Rightarrow> int \<Rightarrow> string" where
  \<comment> \<open>\<^verbatim>\<open>str.substring(Math.max(0, offset - window), offset)\<close>\<close>
  "beforeMatch m window = js_substring (m_str m) (max 0 (int (m_offset m) - window)) (int (m_offset m))"

definition re_collate_general :: regex where
  \<comment> \<open>\<^verbatim>\<open>/COLLATE\s+utf8_general_ci/gi\<close>\<close>
  "re_collate_general = seqs [Lit ''COLLATE'', sp_plus, Lit ''utf8_general_ci'']"

definition cb_collate_general :: "string \<Rightarrow> callback" where
  "cb_collate_general sqlContent m a =
     (if \<not> js_test ci re_create_or_alter_table (beforeMatch m 500) then Inr (m_match m, a)
      else
        let replacement = ''COLLATE utf8mb4_general_ci''
        in Inr (replacement,
             push_optimization a
               \<lparr>lineNumber = Some (getLineNumber sqlContent (m_match m)),
                issueType = Info, category = Compatibility,
                description = ''Updated collation to utf8mb4_general_ci for MariaDB 10.3 compatibility (DDL only)'',
                originalText = Some (m_match m), convertedText = Some replacement,
                autoFixed = True\<rparr>))"

definition re_key :: regex where
  \<comment> \<open>\<^verbatim>\<open>/^\s*(PRIMARY\s+KEY|UNIQUE\s+KEY|FULLTEXT\s+KEY|SPATIAL\s+KEY|KEY)\s+([^\s(]*)\s*\(([^)]+)\)/gim\<close>\<close>
  "re_key =
     seqs [Bol, sp_star,
           Group 1 (alts [seqs [Lit ''PRIMARY'', sp_plus, Lit ''KEY''],
                          seqs [Lit ''UNIQUE'', sp_plus, Lit ''KEY''],
                          seqs [Lit ''FULLTEXT'', sp_plus, Lit ''KEY''],
                          seqs [Lit ''SPATIAL'', sp_plus, Lit ''KEY''],
                          Lit ''KEY'']),
           sp_plus, Group 2 (Star (NCls [CSpace, CC (CHR ''('')])), sp_star, Lit ''('',
           Group 3 (Plus (NCls [CC (CHR '')'')])), Lit '')'']"

definition re_quotes :: regex where
  \<comment> \<open>\<^verbatim>\<open>/[`'"]/g\<close>\<close>
  "re_quotes = Cls [CC bq, CC sq, CC dq]"

definition cb_key :: "string \<Rightarrow> callback" where
  "cb_key sqlContent m a =
     (case js_receiver (grp m 1) of
        Inl e \<Rightarrow> Inl e
      | Inr keyType \<Rightarrow>
          if js_toUpperCase keyType \<noteq> ''KEY'' then Inr (m_match m, a)
          else if \<not> js_test ci re_create_table (beforeMatch m 500) then Inr (m_match m, a)
          else
            let cleanKeyName =
                  (if js_truthy (grp m 2) then js_replace_str g_only re_quotes (js_or_empty (grp m 2)) []
                   else []);
                replacement = ''  KEY '' @ [bq] @ cleanKeyName @ [bq] @ '' ('' @ js_str (grp m 3) @ '')''
            in Inr (replacement,
                 push_optimization a
                   \<lparr>lineNumber = Some (getLineNumber sqlContent (m_match m)),
                    issueType = Info, category = Compatibility,
                    description = ''Ensured plain KEY syntax is MariaDB compatible (preserved all constraint types)'',
                    originalText = Some (js_trim (m_match m)), convertedText = Some (js_trim replacement),
                    autoFixed = True\<rparr>))"

definition re_character_set_utf8 :: regex where
  \<comment> \<open>\<^verbatim>\<open>/CHARACTER\s+SET\s+utf8\s+COLLATE\s+utf8_general_ci/gi\<close>\<close>
  "re_character_set_utf8 =
     seqs [Lit ''CHARACTER'', sp_plus, Lit ''SET'', sp_plus, Lit ''utf8'', sp_plus, Lit ''COLLATE'', sp_plus,
           Lit ''utf8_general_ci'']"

definition cb_character_set_utf8 :: "string \<Rightarrow> callback" where
  "cb_character_set_utf8 sqlContent m a =
     (let replacement = ''CHARACTER SET utf8mb4 COLLATE utf8mb4_general_ci''
      in Inr (replacement,
          addIssue a
            \<lparr>lineNumber = Some (getLineNumber sqlContent (m_match m)),
             issueType = Warning, category = Compatibility,
             description = ''Upgraded character set to utf8mb4 for full unicode support (emojis, colors, special characters)'',
             originalText = Some (m_match m), convertedText = Some replacement,
             autoFixed = True\<rparr>))"

definition re_default_charset_utf8 :: regex where
  \<comment> \<open>\<^verbatim>\<open>/DEFAULT\s+CHARSET\s*=\s*utf8\b(?!\s*mb4)/gi\<close>\<close>
  "re_default_charset_utf8 =
     seqs [Lit ''DEFAULT'', sp_plus, Lit ''CHARSET'', sp_star, Lit ''='', sp_star, Lit ''utf8'', WordB,
           NLook (seqs [sp_star, Lit ''mb4''])]"

definition cb_default_charset_utf8 :: "string \<Rightarrow> callback" where
  "cb_default_charset_utf8 sqlContent m a =
     (let replacement = ''DEFAULT CHARSET=utf8mb4''
      in Inr (replacement,
          addIssue a
            \<lparr>lineNumber = Some (getLineNumber sqlContent (m_match m)),
             issueType = Warning, category = Compatibility,
             description = ''Fixed charset to utf8mb4 for complete data compatibility (colors, emojis, special text)'',
             originalText = Some (m_match m), convertedText = Some replacement,
             autoFixed = True\<rparr>))"

subsection \<open>Index length, ROW_FORMAT, JSON columns, text and varchar columns\<close>

definition re_index :: regex where
  \<comment> \<open>\<^verbatim>\<open>/(KEY|INDEX)\s+([\w`]*)?\s*\(([^)]+)\)/gi\<close>\<close>
  "re_index =
     seqs [Group 1 (Alt (Lit ''KEY'') (Lit ''INDEX'')), sp_plus, Opt (Group 2 (Star (Cls [CWord, CC bq]))),
           sp_star, Lit ''('', Group 3 (Plus (NCls [CC (CHR '')'')])), Lit '')'']"

definition re_large_varchar :: regex where
  \<comment> \<open>\<^verbatim>\<open>/varchar\s*\(\s*([2-9]\d{2}|[1-9]\d{3,})\s*\)/i\<close>\<close>
  "re_large_varchar =
     seqs [Lit ''varchar'', sp_star, Lit ''('', sp_star,
           Group 1 (Alt (seqs [Cls [CR (CHR ''2'') (CHR ''9'')], Cls [CDigit], Cls [CDigit]])
                        (seqs [Cls [CR (CHR ''1'') (CHR ''9'')], Cls [CDigit], Cls [CDigit], Cls [CDigit],
                               Star (Cls [CDigit])])),
           sp_star, Lit '')'']"

definition cb_index :: "string \<Rightarrow> callback" where
  "cb_index sqlContent m a =
     (if \<not> js_test ci re_create_table (beforeMatch m 500) then Inr (m_match m, a)
      else
        let lineNumber = getLineNumber sqlContent (m_match m);
            hasProblematicVarchar = js_test ci re_large_varchar (js_str (grp m 3))
        in if hasProblematicVarchar then
             Inr (m_match m,
               addIssue a
                 \<lparr>lineNumber = Some lineNumber, issueType = Error, category = Compatibility,
                  description = ''INDEX on large VARCHAR detected - may exceed MariaDB 10.3 key length limits with utf8mb4. Consider adding ROW_FORMAT=DYNAMIC or index prefixes.'',
                  originalText = Some (m_match m), convertedText = None,
                  autoFixed = False\<rparr>)
           else Inr (m_match m, a))"

definition re_row_format_table :: regex where
  \<comment> \<open>\<^verbatim>\<open>/(CREATE\s+TABLE\s+[\w`\.]+\s*\([^;]+)\)\s*(ENGINE\s*=\s*InnoDB)([^;]*);/gi\<close>\<close>
  "re_row_format_table =
     seqs [Group 1 (seqs [Lit ''CREATE'', sp_plus, Lit ''TABLE'', sp_plus,
                          Plus (Cls [CWord, CC bq, CC (CHR ''.'')]), sp_star, Lit ''('',
                          Plus (NCls [CC (CHR '';'')])]),
           Lit '')'', sp_star,
           Group 2 (seqs [Lit ''ENGINE'', sp_star, Lit ''='', sp_star, Lit ''InnoDB'']),
           Group 3 (Star (NCls [CC (CHR '';'')])), Lit '';'']"

definition re_utf8mb4 :: regex where
  \<comment> \<open>\<^verbatim>\<open>/utf8mb4/i\<close>\<close>
  "re_utf8mb4 = Lit ''utf8mb4''"

definition re_row_format :: regex where
  \<comment> \<open>\<^verbatim>\<open>/ROW_FORMAT\s*=/i\<close>\<close>
  "re_row_format = seqs [Lit ''ROW_FORMAT'', sp_star, Lit ''='']"

definition cb_row_format :: "string \<Rightarrow> callback" where
  "cb_row_format sqlContent m a =
     (let lineNumber = getLineNumber sqlContent (m_match m);
          hasUtf8mb4 = js_test ci re_utf8mb4 (m_match m);
          hasLargeVarchar = js_test ci re_large_varchar (m_match m);
          hasRowFormat = js_test ci re_row_format (m_match m)
      in if hasUtf8mb4 \<and> hasLargeVarchar \<and> \<not> hasRowFormat then
           let replacement = js_str (grp m 1) @ '') '' @ js_str (grp m 2) @ '' ROW_FORMAT=DYNAMIC'' @
                             js_str (grp m 3) @ '';''
           in Inr (replacement,
                addIssue a
                  \<lparr>lineNumber = Some lineNumber, issueType = Warning, category = Compatibility,
                   description = ''Added ROW_FORMAT=DYNAMIC for utf8mb4 compatibility with large VARCHAR columns'',
                   originalText = Some (m_match m), convertedText = Some replacement,
                   autoFixed = True\<rparr>)
         else Inr (m_match m, a))"

definition re_json_column :: regex where
  \<comment> \<open>\<^verbatim>\<open>/(`[^`]+`)\s+(json)(\b[^,)]*)/gi\<close>\<close>
  "re_json_column =
     seqs [Group 1 (seqs [Lit [bq], Plus (NCls [CC bq]), Lit [bq]]), sp_plus, Group 2 (Lit ''json''),
           Group 3 (seqs [WordB, Star (NCls [CC (CHR '',''), CC (CHR '')'')])])]"

definition cb_json_column :: "string \<Rightarrow> callback" where
  "cb_json_column sqlContent m a =
     (if \<not> js_test ci re_create_table (beforeMatch m 300) then Inr (m_match m, a)
      else
        let replacement = js_str (grp m 1) @ '' longtext COLLATE utf8mb4_bin'' @ js_str (grp m 3)
        in Inr (replacement,
             push_optimization a
               \<lparr>lineNumber = Some (getLineNumber sqlContent (m_match m)),
                issueType = Info, category = Compatibility,
                description = ''Converted JSON column to longtext with binary collation for MariaDB 10.3 compatibility (preserved all constraints)'',
                originalText = Some (m_match m), convertedText = Some replacement,
                autoFixed = True\<rparr>))"

definition re_text :: regex where
  \<comment> \<open>\<^verbatim>\<open>/\b(text|longtext|mediumtext|tinytext)\b(?!\w)(\s+CHARACTER\s+SET\s+\w+)?(\s+COLLATE\s+[\w_]+)?/gi\<close>\<close>
  "re_text =
     seqs [WordB, Group 1 (alts [Lit ''text'', Lit ''longtext'', Lit ''mediumtext'', Lit ''tinytext'']), WordB,
           NLook (Cls [CWord]),
           Opt (Group 2 (seqs [sp_plus, Lit ''CHARACTER'', sp_plus, Lit ''SET'', sp_plus, wd_plus])),
           Opt (Group 3 (seqs [sp_plus, Lit ''COLLATE'', sp_plus, Plus (Cls [CWord, CC (CHR ''_'')])]))]"

definition cb_text :: "string \<Rightarrow> callback" where
  "cb_text sqlContent m a =
     (if \<not> js_test ci re_create_table (beforeMatch m 300) then Inr (m_match m, a)
      else if \<not> js_truthy (grp m 2) \<or> \<not> js_includes (js_or_empty (grp m 2)) ''utf8mb4'' then
        let replacement = js_str (grp m 1) @ '' CHARACTER SET utf8mb4 COLLATE utf8mb4_general_ci''
        in Inr (replacement,
             push_optimization a
               \<lparr>lineNumber = Some (getLineNumber sqlContent (m_match m)),
                issueType = Info, category = Optimization,
                description = ''Ensured text field uses utf8mb4 for complete data support (all characters, colors, formatting)'',
                originalText = Some (m_match m), convertedText = Some replacement,
                autoFixed = True\<rparr>)
      else Inr (m_match m, a))"

definition re_varchar :: regex where
  \<comment> \<open>\<^verbatim>\<open>/\bvarchar\((\d+)\)(?!\s+CHARACTER\s+SET\s+utf8mb4)/gi\<close>\<close>
  "re_varchar =
     seqs [WordB, Lit ''varchar('', Group 1 dg_plus, Lit '')'',
           NLook (seqs [sp_plus, Lit ''CHARACTER'', sp_plus, Lit ''SET'', sp_plus, Lit ''utf8mb4''])]"

definition cb_varchar :: "string \<Rightarrow> callback" where
  "cb_varchar sqlContent m a =
     (if \<not> js_test ci re_create_table (beforeMatch m 300) then Inr (m_match m, a)
      else
        let replacement = ''varchar('' @ js_str (grp m 1) @ '') CHARACTER SET utf8mb4 COLLATE utf8mb4_general_ci''
        in Inr (replacement,
             push_optimization a
               \<lparr>lineNumber = Some (getLineNumber sqlContent (m_match m)),
                issueType = Info, category = Optimization,
                description = ''Enhanced varchar field to support all characters including colors and special formatting'',
                originalText = Some (m_match m), convertedText = Some replacement,
                autoFixed = True\<rparr>))"

definition re_collate_unicode :: regex where
  \<comment> \<open>\<^verbatim>\<open>/COLLATE\s+utf8_unicode_ci/gi\<close>\<close>
  "re_collate_unicode = seqs [Lit ''COLLATE'', sp_plus, Lit ''utf8_unicode_ci'']"

definition cb_collate_unicode :: "string \<Rightarrow> callback" where
  "cb_collate_unicode sqlContent m a =
     (if \<not> js_test ci re_create_or_alter_table (beforeMatch m 500) then Inr (m_match m, a)
      else
        let replacement = ''COLLATE utf8mb4_unicode_ci''
        in Inr (replacement,
             push_optimization a
               \<lparr>lineNumber = Some (getLineNumber sqlContent (m_match m)),
                issueType = Info, category = Compatibility,
                description = ''Updated collation to utf8mb4_unicode_ci for enhanced data compatibility (DDL only)'',
                originalText = Some (m_match m), convertedText = Some replacement,
                autoFixed = True\<rparr>))"

subsection \<open>Whitespace, header and COMMIT\<close>

definition re_blank_lines :: regex where
  \<comment> \<open>\<^verbatim>\<open>/\n\s*\n\s*\n/g\<close>\<close>
  "re_blank_lines = seqs [Lit [nl], sp_star, Lit [nl], sp_star, Lit [nl]]"

definition re_empty_line :: regex where
  \<comment> \<open>\<^verbatim>\<open>/^\s*\n/gm\<close>\<close>
  "re_empty_line = seqs [Bol, sp_star, Lit [nl]]"

definition rule_whitespace :: "ConversionResult \<Rightarrow> js_error + ConversionResult" where
  "rule_whitespace st =
     Inr (st\<lparr>convertedSQL :=
            js_replace_str gm re_empty_line
              (js_replace_str g_only re_blank_lines (convertedSQL st) [nl, nl]) []\<rparr>)"

definition header :: string where
  "header =
     ''-- MariaDB 10.3 Compatible SQL Export'' @ [nl] @
     ''-- Optimized for ALL data types including colors, emojis, special characters'' @ [nl] @
     ''SET NAMES utf8mb4 COLLATE utf8mb4_general_ci;'' @ [nl] @
     ''SET character_set_client = utf8mb4;'' @ [nl] @
     ''SET character_set_connection = utf8mb4;'' @ [nl] @
     ''SET character_set_results = utf8mb4;'' @ [nl] @
     ''SET FOREIGN_KEY_CHECKS = 0;'' @ [nl] @
     ''SET SQL_MODE = '' @ [dq] @ ''NO_AUTO_VALUE_ON_ZERO'' @ [dq] @ '';'' @ [nl] @
     ''SET AUTOCOMMIT = 0;'' @ [nl] @
     ''START TRANSACTION;'' @ [nl] @
     ''SET time_zone = '' @ [dq] @ ''+00:00'' @ [dq] @ '';'' @ [nl] @
     [nl]"

definition header_issue :: ConversionIssue where
  "header_issue =
     \<lparr>lineNumber = Some 1, issueType = Info, category = Optimization,
      description = ''Added MariaDB-compatible SQL header for proper import'',
      originalText = Some ''-- File beginning'', convertedText = Some ''-- MariaDB header added'',
      autoFixed = True\<rparr>"

definition rule_header :: "ConversionResult \<Rightarrow> js_error + ConversionResult" where
  "rule_header st =
     (if \<not> js_includes (convertedSQL st) ''SET NAMES utf8mb4'' then
        let (iss, ss) = push_optimization (issues st, stats st) header_issue
        in Inr \<lparr>convertedSQL = header @ convertedSQL st, issues = iss, stats = ss\<rparr>
      else Inr st)"

definition commit_issue :: "nat \<Rightarrow> ConversionIssue" where
  "commit_issue n =
     \<lparr>lineNumber = Some n, issueType = Info, category = Optimization,
      description = ''Added COMMIT statement at end of file for transaction safety'',
      originalText = Some ''-- File end'', convertedText = Some ''COMMIT;'',
      autoFixed = True\<rparr>"

definition rule_commit :: "ConversionResult \<Rightarrow> js_error + ConversionResult" where
  "rule_commit st =
     (if \<not> js_includes (js_toLowerCase (convertedSQL st)) ''commit'' then
        let sql = convertedSQL st @ [nl, nl] @ ''COMMIT;'' @ [nl];
            (iss, ss) = push_optimization (issues st, stats st) (commit_issue (length (js_split_nl sql)))
        in Inr \<lparr>convertedSQL = sql, issues = iss, stats = ss\<rparr>
      else Inr st)"

subsection \<open>The pipeline\<close>

type_synonym rule = "ConversionResult \<Rightarrow> js_error + ConversionResult"

definition rules :: "string \<Rightarrow> rule list" where
  "rules sqlContent =
     map (rule_collation sqlContent) mysqlCollationMap @
     [replace_rule gi re_set_names (cb_set_names sqlContent),
      replace_rule gi re_definer (cb_definer sqlContent),
      replace_rule gi re_dumping (cb_dumping sqlContent),
      replace_rule g_only re_version_comment (cb_version_comment sqlContent),
      replace_rule gi re_create_if_not_exists (cb_create_if_not_exists sqlContent),
      replace_rule gi re_latin1 (cb_latin1 sqlContent),
      replace_rule gi re_using_btree (cb_using_btree sqlContent),
      replace_rule gi re_local_infile (cb_local_infile sqlContent),
      replace_rule gi re_foreign_key_checks (cb_foreign_key_checks sqlContent),
      replace_rule gi re_sql_mode (cb_sql_mode sqlContent),
      replace_rule gi re_lock_tables (cb_lock_tables sqlContent),
      replace_rule gi re_unlock_tables (cb_unlock_tables sqlContent),
      replace_rule gi re_default_character_set (cb_default_character_set sqlContent),
      replace_rule gi re_default_charset (cb_default_charset sqlContent),
      replace_rule gi re_engine_innodb (cb_engine_innodb sqlContent),
      replace_rule gi re_int (cb_int sqlContent),
      replace_rule gi re_cte (cb_cte sqlContent)] @
     map (rule_window sqlContent) windowFunctions @
     [lines_rule line_generated sqlContent,
      replace_rule gi re_invisible (cb_invisible sqlContent),
      replace_rule gi re_check (cb_check sqlContent)] @
     map (rule_json_function sqlContent) jsonFunctions @
     [replace_rule gi re_json_operator (cb_json_operator sqlContent),
      replace_rule gi re_fulltext (cb_fulltext sqlContent),
      replace_rule gi re_partition (cb_partition sqlContent),
      lines_rule line_json sqlContent,
      replace_rule gi re_auto_increment (cb_auto_increment sqlContent),
      replace_rule gi re_timestamp (cb_timestamp sqlContent),
      replace_rule gi re_disable_keys (cb_disable_keys sqlContent),
      replace_rule gi re_enable_keys (cb_enable_keys sqlContent),
      replace_rule gi re_charset_utf8 (cb_charset_utf8 sqlContent),
      replace_rule gi re_collate_general (cb_collate_general sqlContent),
      replace_rule gim re_key (cb_key sqlContent),
      replace_rule gi re_character_set_utf8 (cb_character_set_utf8 sqlContent),
      replace_rule gi re_default_charset_utf8 (cb_default_charset_utf8 sqlContent),
      replace_rule gi re_index (cb_index sqlContent),
      replace_rule gi re_row_format_table (cb_row_format sqlContent),
      replace_rule gi re_json_column (cb_json_column sqlContent),
      replace_rule gi re_text (cb_text sqlContent),
      replace_rule gi re_varchar (cb_varchar sqlContent),
      replace_rule gi re_collate_unicode (cb_collate_unicode sqlContent),
      rule_whitespace,
      rule_header,
      rule_commit]"

fun apply_rules :: "rule list \<Rightarrow> ConversionResult \<Rightarrow> js_error + ConversionResult" where
  \<comment> \<open>one statement after the other; an exception ends the call\<close>
  "apply_rules [] st = Inr st"
| "apply_rules (r # rs) st = (case r st of Inl e \<Rightarrow> Inl e | Inr st' \<Rightarrow> apply_rules rs st')"

definition initial :: "string \<Rightarrow> ConversionResult" where
  "initial sqlContent =
     \<lparr>convertedSQL = sqlContent, issues = [],
      stats = \<lparr>totalIssues = 0, autoFixedCount = 0, warningsCount = 0, errorsCount = 0,
               optimizationsCount = 0\<rparr>\<rparr>"

definition convertMySQLToMariaDB :: "string \<Rightarrow> js_error + ConversionResult" where
  "convertMySQLToMariaDB sqlContent =
     (case apply_rules (rules sqlContent) (initial sqlContent) of
        Inl e \<Rightarrow> Inl e
      | Inr st \<Rightarrow> Inr (st\<lparr>stats := (stats st)\<lparr>totalIssues := length (issues st)\<rparr>\<rparr>))"

section \<open>Properties of the matcher\<close>

declare run.simps [simp del]

lemma clear_caps_length [simp]: "length (clear_caps gs caps) = length caps"
  unfolding clear_caps_def by (induction gs arbitrary: caps) auto

lemma clear_caps_other: "g \<notin> set gs \<Longrightarrow> clear_caps gs caps ! g = caps ! g"
  unfolding clear_caps_def by (induction gs arbitrary: caps) auto

lemma match_lit_suffix: "match_lit fl s rest prev = Some (rest', prev') \<Longrightarrow> \<exists>pre. rest = pre @ rest'"
proof (induction fl s rest prev rule: match_lit.induct)
  case (3 fl a as c cs prev)
  then show ?case by (auto split: if_splits intro: exI[of _ "c # _"])
qed auto

definition frame :: "nat set \<Rightarrow> mstate \<Rightarrow> mstate \<Rightarrow> bool" where
  "frame G st st' =
     ((\<exists>pre. fst st = pre @ fst st') \<and>
      length (snd (snd st')) = length (snd (snd st)) \<and>
      (\<forall>g. g \<notin> G \<longrightarrow> snd (snd st') ! g = snd (snd st) ! g))"

lemma frame_refl: "frame G st st"
  by (simp add: frame_def)

lemma frame_mono: "frame G st st' \<Longrightarrow> G \<subseteq> H \<Longrightarrow> frame H st st'"
  unfolding frame_def by blast

lemma frame_trans: "frame G st x \<Longrightarrow> frame G x st' \<Longrightarrow> frame G st st'"
  unfolding frame_def by (metis append.assoc)

lemma frame_clear:
  "frame (set gs) (rest, prev, clear_caps gs caps) st' \<Longrightarrow> frame (set gs) (rest, prev, caps) st'"
  unfolding frame_def by (simp add: clear_caps_other)

lemma frame_cons: "frame G (c # cs, prev, caps) (cs, Some c, caps)"
  unfolding frame_def by auto

lemma run_frame: "st' \<in> set (run fl r st) \<Longrightarrow> frame (set (groups_of r)) st st'"
proof (induction fl r st arbitrary: st' rule: run.induct)
  case (1 fl s rest prev caps)
  then have "\<exists>rest' prev'. match_lit fl s rest prev = Some (rest', prev') \<and> st' = (rest', prev', caps)"
    by (cases "match_lit fl s rest prev") (auto simp: run.simps(1))
  then obtain rest' prev' where m: "match_lit fl s rest prev = Some (rest', prev')" "st' = (rest', prev', caps)"
    by blast
  from match_lit_suffix[OF m(1)] m(2) show ?case by (auto simp: frame_def)
next
  case (2 fl items rest prev caps)
  then show ?case by (cases rest) (auto simp: run.simps(2) frame_cons split: if_splits)
next
  case (3 fl items rest prev caps)
  then show ?case by (cases rest) (auto simp: run.simps(3) frame_cons split: if_splits)
next
  case (4 fl rest prev caps)
  then show ?case by (cases rest) (auto simp: run.simps(4) frame_cons split: if_splits)
next
  case (5 fl a b st)
  from "5.prems" obtain x where x: "x \<in> set (run fl a st)" "st' \<in> set (run fl b x)"
    by (auto simp: run.simps(5))
  have "frame (set (groups_of (Seq a b))) st x"
    using "5.IH"(1)[OF x(1)] by (rule frame_mono) simp
  moreover have "frame (set (groups_of (Seq a b))) x st'"
    using "5.IH"(2)[OF x(1) x(2)] by (rule frame_mono) simp
  ultimately show ?case by (rule frame_trans)
next
  case (6 fl a b st)
  from "6.prems" consider "st' \<in> set (run fl a st)" | "st' \<in> set (run fl b st)"
    by (auto simp: run.simps(6))
  then show ?case
  proof cases
    case 1
    show ?thesis using "6.IH"(1)[OF 1] by (rule frame_mono) simp
  next
    case 2
    show ?thesis using "6.IH"(2)[OF 2] by (rule frame_mono) simp
  qed
next
  case (7 fl a rest prev caps)
  from "7.prems" have "st' \<in> set (concat (map (\<lambda>st'. if length (fst st') < length rest then run fl (Star a) st' else [])
                 (run fl a (rest, prev, clear_caps (groups_of a) caps)))) \<or> st' = (rest, prev, caps)"
    by (subst (asm) run.simps(7)) auto
  then consider "st' = (rest, prev, caps)"
    | x where "x \<in> set (run fl a (rest, prev, clear_caps (groups_of a) caps))" "length (fst x) < length rest"
        "st' \<in> set (run fl (Star a) x)"
    by (auto split: if_splits)
  then show ?case
  proof cases
    case 1
    then show ?thesis by (simp add: frame_refl)
  next
    case 2
    have "frame (set (groups_of a)) (rest, prev, caps) x"
      using "7.IH"(1)[OF 2(1)] by (rule frame_clear)
    moreover have "frame (set (groups_of a)) x st'"
      using "7.IH"(2)[OF 2(1) 2(2) 2(3)] by simp
    ultimately show ?thesis using frame_trans by simp
  qed
next
  case (8 fl a rest prev caps)
  from "8.prems" have "st' \<in> set (concat (map (\<lambda>st'. if length (fst st') < length rest then run fl (LStar a) st' else [])
                 (run fl a (rest, prev, clear_caps (groups_of a) caps)))) \<or> st' = (rest, prev, caps)"
    by (subst (asm) run.simps(8)) auto
  then consider "st' = (rest, prev, caps)"
    | x where "x \<in> set (run fl a (rest, prev, clear_caps (groups_of a) caps))" "length (fst x) < length rest"
        "st' \<in> set (run fl (LStar a) x)"
    by (auto split: if_splits)
  then show ?case
  proof cases
    case 1
    then show ?thesis by (simp add: frame_refl)
  next
    case 2
    have "frame (set (groups_of a)) (rest, prev, caps) x"
      using "8.IH"(1)[OF 2(1)] by (rule frame_clear)
    moreover have "frame (set (groups_of a)) x st'"
      using "8.IH"(2)[OF 2(1) 2(2) 2(3)] by simp
    ultimately show ?thesis using frame_trans by simp
  qed
next
  case (9 fl a rest prev caps)
  from "9.prems" consider "st' = (rest, prev, caps)"
    | "st' \<in> set (run fl a (rest, prev, clear_caps (groups_of a) caps))"
    by (auto simp: run.simps(9))
  then show ?case
  proof cases
    case 1
    then show ?thesis by (simp add: frame_refl)
  next
    case 2
    show ?thesis using "9.IH"[OF 2] frame_clear by simp
  qed
next
  case (10 fl n a rest prev caps)
  from "10.prems" obtain x where x: "x \<in> set (run fl a (rest, prev, caps))"
    "st' = (fst x, fst (snd x), (snd (snd x))[n := Some (take (length rest - length (fst x)) rest)])"
    by (auto simp: run.simps(10))
  from "10.IH"[OF x(1)] x(2) show ?case by (auto simp: frame_def)
next
  case (11 fl rest prev caps)
  then show ?case by (auto simp: run.simps(11) frame_refl split: if_splits)
next
  case (12 fl rest prev caps)
  then show ?case by (cases prev) (auto simp: run.simps(12) frame_refl split: if_splits)
next
  case (13 fl rest prev caps)
  then show ?case by (cases rest) (auto simp: run.simps(13) frame_refl split: if_splits)
next
  case (14 fl a rest prev caps)
  then show ?case by (auto simp: run.simps(14) frame_refl split: if_splits)
qed

fun always_sets :: "regex \<Rightarrow> nat \<Rightarrow> bool" where
  "always_sets (Seq a b) g = (always_sets a g \<or> always_sets b g)"
| "always_sets (Alt a b) g = (always_sets a g \<and> always_sets b g)"
| "always_sets (Group n a) g = (n = g \<or> always_sets a g)"
| "always_sets _ g = False"

lemma always_sets_groups: "always_sets r g \<Longrightarrow> g \<in> set (groups_of r)"
  by (induction r) auto

lemma run_sets:
  "st' \<in> set (run fl r st) \<Longrightarrow> always_sets r g \<Longrightarrow> distinct (groups_of r) \<Longrightarrow>
   g < length (snd (snd st)) \<Longrightarrow> snd (snd st') ! g \<noteq> None"
proof (induction fl r st arbitrary: st' rule: run.induct)
  case (5 fl a b st)
  from "5.prems"(1) obtain x where x: "x \<in> set (run fl a st)" "st' \<in> set (run fl b x)"
    by (auto simp: run.simps(5))
  have fa: "frame (set (groups_of a)) st x" using run_frame[OF x(1)] .
  have fb: "frame (set (groups_of b)) x st'" using run_frame[OF x(2)] .
  have len: "g < length (snd (snd x))" using fa "5.prems"(4) by (simp add: frame_def)
  from "5.prems"(3) have da: "distinct (groups_of a)" and db: "distinct (groups_of b)"
    and disj: "set (groups_of a) \<inter> set (groups_of b) = {}" by auto
  from "5.prems"(2) consider "always_sets a g" | "always_sets b g" by auto
  then show ?case
  proof cases
    case 1
    from "5.IH"(1)[OF x(1) 1 da "5.prems"(4)] have "snd (snd x) ! g \<noteq> None" .
    moreover have "g \<notin> set (groups_of b)" using always_sets_groups[OF 1] disj by auto
    ultimately show ?thesis using fb by (simp add: frame_def)
  next
    case 2
    from "5.IH"(2)[OF x(1) x(2) 2 db len] show ?thesis .
  qed
next
  case (6 fl a b st)
  from "6.prems"(1) consider "st' \<in> set (run fl a st)" | "st' \<in> set (run fl b st)"
    by (auto simp: run.simps(6))
  then show ?case
  proof cases
    case 1
    with "6.IH"(1) "6.prems" show ?thesis by auto
  next
    case 2
    with "6.IH"(2) "6.prems" show ?thesis by auto
  qed
next
  case (10 fl n a rest prev caps)
  from "10.prems"(1) obtain x where x: "x \<in> set (run fl a (rest, prev, caps))"
    "st' = (fst x, fst (snd x), (snd (snd x))[n := Some (take (length rest - length (fst x)) rest)])"
    by (auto simp: run.simps(10))
  have len: "length (snd (snd x)) = length caps" using run_frame[OF x(1)] by (simp add: frame_def)
  show ?case
  proof (cases "n = g")
    case True
    with x(2) len "10.prems"(4) show ?thesis by simp
  next
    case False
    with "10.prems"(2) have "always_sets a g" by simp
    from "10.IH"[OF x(1) this] "10.prems"(3,4) have "snd (snd x) ! g \<noteq> None" by simp
    with False x(2) show ?thesis by simp
  qed
qed simp_all

lemma exec_at_SomeD:
  assumes "exec_at fl rx caps0 rest prev = Some (k, caps)"
  shows "\<exists>rest' prev'. (rest', prev', caps) \<in> set (run fl rx (rest, prev, caps0)) \<and>
                        k = length rest - length rest' \<and> rest = take k rest @ rest'"
proof -
  from assms obtain rest' prev' sts where r: "run fl rx (rest, prev, caps0) = (rest', prev', caps) # sts"
    and k: "k = length rest - length rest'"
    by (auto simp: exec_at_def split: list.splits)
  then have m: "(rest', prev', caps) \<in> set (run fl rx (rest, prev, caps0))" by simp
  from run_frame[OF m] obtain pre where "rest = pre @ rest'" by (auto simp: frame_def)
  with k m show ?thesis by auto
qed

lemma exec_at_groups:
  assumes "exec_at fl rx (no_captures rx) rest prev = Some (k, caps)"
    and "always_sets rx g" and "distinct (groups_of rx)"
  shows "g < length caps \<and> caps ! g \<noteq> None"
proof -
  from exec_at_SomeD[OF assms(1)] obtain rest' prev'
    where m: "(rest', prev', caps) \<in> set (run fl rx (rest, prev, no_captures rx))" by blast
  have "g \<in> set (groups_of rx)" using always_sets_groups[OF assms(2)] .
  then have "g \<le> ngroups rx"
  proof -
    have "\<And>xs (n::nat) g. g \<in> set xs \<Longrightarrow> g \<le> fold max xs n"
    proof -
      fix xs :: "nat list" and n g
      have "n \<le> fold max xs n \<and> (\<forall>g\<in>set xs. g \<le> fold max xs n)"
      proof (induction xs arbitrary: n)
        case Nil
        then show ?case by simp
      next
        case (Cons x xs)
        have a: "max x n \<le> fold max xs (max x n)" and b: "\<forall>g\<in>set xs. g \<le> fold max xs (max x n)"
          using Cons.IH[of "max x n"] by auto
        from a b show ?case by auto
      qed
      then show "g \<in> set xs \<Longrightarrow> g \<le> fold max xs n" by blast
    qed
    then show ?thesis using \<open>g \<in> set (groups_of rx)\<close> by (simp add: ngroups_def)
  qed
  then have len0: "g < length (no_captures rx)" by (simp add: no_captures_def)
  from run_frame[OF m] have "length caps = length (no_captures rx)" by (simp add: frame_def)
  moreover from run_sets[OF m assms(2) assms(3)] len0 have "caps ! g \<noteq> None" by simp
  ultimately show ?thesis using len0 by simp
qed

subsection \<open>Literals, anchors and runs of white space\<close>

definition lit_prefix :: "flags \<Rightarrow> string \<Rightarrow> string \<Rightarrow> bool" where
  "lit_prefix fl w s = (length w \<le> length s \<and> list_all2 (char_eq fl) w (take (length w) s))"

lemma lit_prefix_Nil [simp]: "lit_prefix fl [] s"
  by (simp add: lit_prefix_def)

lemma lit_prefix_Cons_Nil [simp]: "\<not> lit_prefix fl (a # as) []"
  by (simp add: lit_prefix_def)

lemma lit_prefix_Cons [simp]: "lit_prefix fl (a # as) (c # cs) = (char_eq fl a c \<and> lit_prefix fl as cs)"
  by (auto simp: lit_prefix_def)

lemma match_lit_None: "(match_lit fl w rest prev = None) = (\<not> lit_prefix fl w rest)"
  by (induction fl w rest prev rule: match_lit.induct) auto

lemma run_Lit_Nil: "(run fl (Lit w) (rest, prev, caps) = []) = (\<not> lit_prefix fl w rest)"
  using match_lit_None[of fl w rest prev] by (auto simp: run.simps(1) split: option.splits)

lemma exec_at_None: "(exec_at fl rx caps0 rest prev = None) = (run fl rx (rest, prev, caps0) = [])"
  by (auto simp: exec_at_def split: list.splits)

lemma lit_prefix_ci: "lit_prefix ci w s = js_startsWith (js_toUpperCase s) (js_toUpperCase w)"
proof (induction w arbitrary: s)
  case Nil
  then show ?case by (simp add: js_startsWith_def js_toUpperCase_def)
next
  case (Cons a as)
  then show ?case by (cases s) (auto simp: js_startsWith_def js_toUpperCase_def char_eq_def ci_def)
qed

lemma search_Lit:
  "(search ci (Lit w) caps0 off prev s \<noteq> None) = js_includes (js_toUpperCase s) (js_toUpperCase w)"
proof (induction s arbitrary: off prev)
  case Nil
  have "(exec_at ci (Lit w) caps0 [] prev = None) = (w \<noteq> [])"
    by (cases w) (simp_all add: exec_at_None run_Lit_Nil)
  then show ?case by (auto simp: js_toUpperCase_def split: option.splits)
next
  case (Cons c cs)
  have "(exec_at ci (Lit w) caps0 (c # cs) prev = None) = (\<not> js_startsWith (js_toUpperCase (c # cs)) (js_toUpperCase w))"
    by (simp add: exec_at_None run_Lit_Nil lit_prefix_ci)
  then show ?case using Cons[of "Suc off" "Some c"]
    by (cases "exec_at ci (Lit w) caps0 (c # cs) prev") (auto simp: js_toUpperCase_def)
qed

lemma test_Lit: "js_test ci (Lit w) s = js_includes (js_toUpperCase s) (js_toUpperCase w)"
  unfolding js_test_def by (rule search_Lit)

lemma run_Bol_Some: "\<not> multiline fl \<Longrightarrow> run fl (Seq Bol r) (rest, Some c, caps) = []"
  by (simp add: run.simps(5) run.simps(12))

lemma run_Bol_None: "run fl (Seq Bol r) (rest, None, caps) = run fl r (rest, None, caps)"
  by (simp add: run.simps(5) run.simps(12))

lemma search_Bol_Some: "\<not> multiline fl \<Longrightarrow> search fl (Seq Bol r) caps0 off (Some c) s = None"
  by (induction s arbitrary: off c) (simp_all add: exec_at_def run_Bol_Some)

lemma test_Bol: "js_test ci (Seq Bol r) s = (run ci r (s, None, no_captures (Seq Bol r)) \<noteq> [])"
proof (cases s)
  case Nil
  then show ?thesis by (auto simp: js_test_def exec_at_def run_Bol_None split: list.splits option.splits)
next
  case (Cons c cs)
  have "search ci (Seq Bol r) (no_captures (Seq Bol r)) (Suc 0) (Some c) cs = None"
    by (rule search_Bol_Some) (simp add: ci_def)
  with Cons show ?thesis
    by (auto simp: js_test_def exec_at_def run_Bol_None split: list.splits option.splits)
qed

lemma to_upper_space [simp]: "is_space (to_upper c) = is_space c"
  by (cases c) auto

lemma to_lower_space [simp]: "is_space (to_lower c) = is_space c"
  by (cases c) auto

lemma in_class_space [simp]: "in_class fl [CSpace] c = is_space c"
  by (auto simp: in_class_def)

lemma star_space_lit:
  assumes "w \<noteq> []" "\<And>c. is_space c \<Longrightarrow> \<not> char_eq fl (hd w) c"
  shows "(concat (map (run fl (Lit w)) (run fl (Star sp) (rest, prev, caps))) = []) =
         (\<not> lit_prefix fl w (dropWhile is_space rest))"
proof (induction rest arbitrary: prev caps)
  case Nil
  show ?case by (subst run.simps(7)) (simp add: sp_def run.simps(2) run_Lit_Nil)
next
  case (Cons c cs)
  obtain a as where w: "w = a # as" using assms(1) by (cases w) auto
  from assms(2) w have ns: "is_space c \<Longrightarrow> \<not> char_eq fl a c" by simp
  show ?case
    using Cons[of "Some c" "clear_caps [] caps"] ns
    by (subst run.simps(7)) (auto simp: sp_def run.simps(2) run_Lit_Nil w)
qed

lemma match_lit_Some:
  "lit_prefix fl w rest \<Longrightarrow> \<exists>p. match_lit fl w rest prev = Some (drop (length w) rest, p)"
  by (induction fl w rest prev rule: match_lit.induct) auto

lemma run_Lit_Some:
  "lit_prefix fl w rest \<Longrightarrow> \<exists>p. run fl (Lit w) (rest, prev, caps) = [(drop (length w) rest, p, caps)]"
  using match_lit_Some[of fl w rest prev] by (auto simp: run.simps(1))



definition space_then :: "(string \<Rightarrow> bool) \<Rightarrow> string \<Rightarrow> bool" where
  "space_then P s = (case s of [] \<Rightarrow> False | c # cs \<Rightarrow> is_space c \<and> P (dropWhile is_space cs))"

lemma plus_space_lit:
  assumes "w \<noteq> []" "\<And>c. is_space c \<Longrightarrow> \<not> char_eq fl (hd w) c"
  shows "(run fl (Seq sp_plus (Lit w)) (rest, prev, caps) = []) = (\<not> space_then (lit_prefix fl w) rest)"
proof (cases rest)
  case Nil
  then show ?thesis
    by (simp add: sp_plus_def Plus_def run.simps(5) run.simps(2) space_then_def)
next
  case (Cons c cs)
  have "run fl (Seq sp_plus (Lit w)) (rest, prev, caps) =
        (if is_space c then concat (map (run fl (Lit w)) (run fl (Star sp) (cs, Some c, caps))) else [])"
    using Cons by (simp add: sp_plus_def Plus_def run.simps(5) run.simps(2) sp_def)
  then show ?thesis using star_space_lit[OF assms, of cs "Some c" caps] Cons
    by (simp add: space_then_def)
qed

section \<open>Properties of the global replace\<close>

declare replace_from.simps [simp del]
declare replace_str_from.simps [simp del]

definition prev_at :: "string \<Rightarrow> nat \<Rightarrow> char option" where
  "prev_at str off = (if off = 0 then None else Some (str ! (off - 1)))"

definition match_from :: "flags \<Rightarrow> regex \<Rightarrow> captures \<Rightarrow> string \<Rightarrow> match_args \<Rightarrow> bool" where
  "match_from fl rx caps0 str m =
     (m_str m = str \<and> m_offset m \<le> length str \<and>
      (\<exists>k. exec_at fl rx caps0 (drop (m_offset m) str) (prev_at str (m_offset m)) = Some (k, m_groups m) \<and>
           m_match m = take k (drop (m_offset m) str)))"

definition at_pos :: "string \<Rightarrow> nat \<Rightarrow> char option \<Rightarrow> string \<Rightarrow> bool" where
  "at_pos str off prev rest = (off \<le> length str \<and> rest = drop off str \<and> prev = prev_at str off)"

lemma at_pos_start: "at_pos str 0 None str"
  by (simp add: at_pos_def prev_at_def)

lemma at_pos_step: "at_pos str off prev (c # cs) \<Longrightarrow> at_pos str (Suc off) (Some c) cs"
proof -
  assume a: "at_pos str off prev (c # cs)"
  then have d: "drop off str = c # cs" and le: "off \<le> length str" by (simp_all add: at_pos_def)
  from d have lt: "off < length str" by (metis drop_eq_Nil2 le list.distinct(1) not_le_imp_less drop_all)
  have "cs = drop (Suc off) str" using d by (metis drop_Suc tl_drop list.sel(3))
  moreover have "str ! off = c" using d lt by (metis nth_via_drop)
  ultimately show ?thesis using lt by (simp add: at_pos_def prev_at_def)
qed

lemma at_pos_jump:
  assumes "at_pos str off prev rest" "k \<le> length rest" "k \<noteq> 0"
  shows "at_pos str (off + k) (Some (rest ! (k - 1))) (drop k rest)"
proof -
  from assms(1) have d: "rest = drop off str" and le: "off \<le> length str" by (simp_all add: at_pos_def)
  from assms(2) d le have le2: "off + k \<le> length str" by simp
  moreover have "drop k rest = drop (off + k) str" using d by (simp add: add.commute)
  moreover have "rest ! (k - 1) = str ! (off + k - 1)"
    using d assms(2,3) le le2 by (simp add: nth_drop) 
  ultimately show ?thesis using assms(3) by (simp add: at_pos_def prev_at_def)
qed

lemma match_from_here:
  "at_pos str off prev rest \<Longrightarrow> exec_at fl rx caps0 rest prev = Some (k, caps) \<Longrightarrow>
   match_from fl rx caps0 str \<lparr>m_match = take k rest, m_groups = caps, m_offset = off, m_str = str\<rparr>"
  by (auto simp: match_from_def at_pos_def)

lemma replace_from_master:
  "(\<And>m a. match_from fl rx caps0 str m \<Longrightarrow> I a \<Longrightarrow>
       \<exists>r a'. cb m a = Inr (r, a') \<and> I a' \<and> (idem \<longrightarrow> r = m_match m)) \<Longrightarrow>
   at_pos str off prev rest \<Longrightarrow> I a \<Longrightarrow>
   \<exists>out a'. replace_from fl rx caps0 cb str off prev rest a = Inr (out, a') \<and> I a' \<and> (idem \<longrightarrow> out = rest)"
proof (induction fl rx caps0 cb str off prev rest a rule: replace_from.induct)
  case (1 fl rx caps0 cb str off prev rest a)
  note cb = "1.prems"(1) and pos = "1.prems"(2) and inv = "1.prems"(3)
  show ?case
  proof (cases "exec_at fl rx caps0 rest prev")
    case None
    show ?thesis
    proof (cases rest)
      case Nil
      with None inv show ?thesis by (subst replace_from.simps) simp
    next
      case (Cons c cs)
      from pos Cons have "at_pos str (Suc off) (Some c) cs" by (auto intro: at_pos_step)
      from "1.IH"(1)[OF None Cons cb this inv]
      obtain out a' where "replace_from fl rx caps0 cb str (Suc off) (Some c) cs a = Inr (out, a')"
        "I a'" "idem \<longrightarrow> out = cs" by blast
      with None Cons show ?thesis by (subst replace_from.simps) simp
    qed
  next
    case (Some kc)
    obtain k caps where kc: "kc = (k, caps)" by (cases kc)
    let ?m = "\<lparr>m_match = take k rest, m_groups = caps, m_offset = off, m_str = str\<rparr>"
    from Some kc have ex: "exec_at fl rx caps0 rest prev = Some (k, caps)" by simp
    from cb[OF match_from_here[OF pos ex] inv] obtain r a1
      where r: "cb ?m a = Inr (r, a1)" and inv1: "I a1" and idem: "idem \<longrightarrow> r = take k rest" by auto
    show ?thesis
    proof (cases "k = 0")
      case True
      show ?thesis
      proof (cases rest)
        case Nil
        with ex r True inv1 idem show ?thesis by (subst replace_from.simps) simp
      next
        case (Cons c cs)
        from pos Cons have "at_pos str (Suc off) (Some c) cs" by (auto intro: at_pos_step)
        from "1.IH"(2)[OF Some kc[symmetric] r refl True Cons cb this inv1]
        obtain out a' where "replace_from fl rx caps0 cb str (Suc off) (Some c) cs a1 = Inr (out, a')"
          "I a'" "idem \<longrightarrow> out = cs" by auto
        with ex r True Cons idem show ?thesis by (subst replace_from.simps) simp
      qed
    next
      case False
      from exec_at_le[OF ex] have "k \<le> length rest" .
      from at_pos_jump[OF pos this False] have "at_pos str (off + k) (Some (rest ! (k - 1))) (drop k rest)" .
      from "1.IH"(3)[OF Some kc[symmetric] r refl False cb this inv1]
      obtain out a' where "replace_from fl rx caps0 cb str (off + k) (Some (rest ! (k - 1))) (drop k rest) a1 = Inr (out, a')"
        "I a'" "idem \<longrightarrow> out = drop k rest" by auto
      with ex r False idem show ?thesis by (subst replace_from.simps) simp
    qed
  qed
qed

definition match_of :: "flags \<Rightarrow> regex \<Rightarrow> string \<Rightarrow> match_args \<Rightarrow> bool" where
  "match_of fl rx str m = match_from fl rx (no_captures rx) str m"

lemma js_replace_master:
  assumes "\<And>m a. match_of fl rx str m \<Longrightarrow> I a \<Longrightarrow>
             \<exists>r a'. cb m a = Inr (r, a') \<and> I a' \<and> (idem \<longrightarrow> r = m_match m)"
    and "I a"
  shows "\<exists>out a'. js_replace fl rx cb str a = Inr (out, a') \<and> I a' \<and> (idem \<longrightarrow> out = str)"
  unfolding js_replace_def
  using replace_from_master[of fl rx "no_captures rx" str I cb idem 0 None str a] assms at_pos_start
  by (auto simp: match_of_def)

lemma match_of_groups:
  assumes "match_of fl rx str m" "always_sets rx g" "distinct (groups_of rx)"
  shows "\<exists>s. grp m g = Some s"
proof -
  from assms(1) obtain k rest prev where "exec_at fl rx (no_captures rx) rest prev = Some (k, m_groups m)"
    by (auto simp: match_of_def match_from_def)
  from exec_at_groups[OF this assms(2,3)] show ?thesis by (auto simp: grp_def)
qed

function matches_from ::
  "flags \<Rightarrow> regex \<Rightarrow> captures \<Rightarrow> string \<Rightarrow> nat \<Rightarrow> char option \<Rightarrow> string \<Rightarrow> match_args list" where
  "matches_from fl rx caps0 str off prev rest =
     (case exec_at fl rx caps0 rest prev of
        None \<Rightarrow> (case rest of [] \<Rightarrow> [] | c # cs \<Rightarrow> matches_from fl rx caps0 str (Suc off) (Some c) cs)
      | Some (k, caps) \<Rightarrow>
          \<lparr>m_match = take k rest, m_groups = caps, m_offset = off, m_str = str\<rparr> #
          (if k = 0 then (case rest of [] \<Rightarrow> [] | c # cs \<Rightarrow> matches_from fl rx caps0 str (Suc off) (Some c) cs)
           else matches_from fl rx caps0 str (off + k) (Some (rest ! (k - 1))) (drop k rest)))"
  by pat_completeness auto
termination
proof (relation "measure (\<lambda>(fl, rx, caps0, str, off, prev, rest). length rest)")
  fix fl rx caps0 str off prev rest x2 k caps
  assume "exec_at fl rx caps0 rest prev = Some x2" "(k, caps) = x2" "k \<noteq> 0"
  then have "k \<le> length rest" using exec_at_le by metis
  with \<open>k \<noteq> 0\<close>
  show "((fl, rx, caps0, str, off + k, Some (rest ! (k - 1)), drop k rest), fl, rx, caps0, str, off, prev, rest)
        \<in> measure (\<lambda>(fl, rx, caps0, str, off, prev, rest). length rest)"
    by auto
qed auto

declare matches_from.simps [simp del]

definition js_matches :: "flags \<Rightarrow> regex \<Rightarrow> string \<Rightarrow> match_args list" where
  \<comment> \<open>the matches a global replace visits, left to right\<close>
  "js_matches fl rx str = matches_from fl rx (no_captures rx) str 0 None str"

text \<open>
  A global replace with a callback is: find the matches, call the callback on each, in order,
  and put the results in the place of the matches.
\<close>

fun run_callbacks :: "callback \<Rightarrow> match_args list \<Rightarrow> acc \<Rightarrow> js_error + string list \<times> acc" where
  "run_callbacks cb [] a = Inr ([], a)"
| "run_callbacks cb (m # ms) a =
     (case cb m a of
        Inl e \<Rightarrow> Inl e
      | Inr (r, a1) \<Rightarrow>
          (case run_callbacks cb ms a1 of Inl e \<Rightarrow> Inl e | Inr (rs, a') \<Rightarrow> Inr (r # rs, a')))"

fun rebuild :: "string \<Rightarrow> nat \<Rightarrow> match_args list \<Rightarrow> string list \<Rightarrow> string" where
  "rebuild str pos (m # ms) (r # rs) =
     take (m_offset m - pos) (drop pos str) @ r @ rebuild str (m_offset m + length (m_match m)) ms rs"
| "rebuild str pos _ _ = drop pos str"

lemma matches_from_offsets:
  "at_pos str off prev rest \<Longrightarrow> m \<in> set (matches_from fl rx caps0 str off prev rest) \<Longrightarrow>
   off \<le> m_offset m \<and> match_from fl rx caps0 str m"
proof (induction fl rx caps0 str off prev rest rule: matches_from.induct)
  case (1 fl rx caps0 str off prev rest)
  note pos = "1.prems"(1) and mem = "1.prems"(2)
  show ?case
  proof (cases "exec_at fl rx caps0 rest prev")
    case None
    show ?thesis
    proof (cases rest)
      case Nil
      with None mem show ?thesis by (subst (asm) matches_from.simps) simp
    next
      case (Cons c cs)
      from pos Cons have p: "at_pos str (Suc off) (Some c) cs" by (auto intro: at_pos_step)
      from mem None Cons have "m \<in> set (matches_from fl rx caps0 str (Suc off) (Some c) cs)"
        by (subst (asm) matches_from.simps) simp
      from "1.IH"(1)[OF None Cons p this] show ?thesis by simp
    qed
  next
    case (Some kc)
    obtain k caps where kc: "kc = (k, caps)" by (cases kc)
    let ?m = "\<lparr>m_match = take k rest, m_groups = caps, m_offset = off, m_str = str\<rparr>"
    from Some kc have ex: "exec_at fl rx caps0 rest prev = Some (k, caps)" by simp
    have here: "match_from fl rx caps0 str ?m" by (rule match_from_here[OF pos ex])
    show ?thesis
    proof (cases "k = 0")
      case True
      show ?thesis
      proof (cases rest)
        case Nil
        with ex True mem have "m = ?m" by (subst (asm) matches_from.simps) simp
        with here show ?thesis by simp
      next
        case (Cons c cs)
        from pos Cons have p: "at_pos str (Suc off) (Some c) cs" by (auto intro: at_pos_step)
        from mem ex True Cons have "m = ?m \<or> m \<in> set (matches_from fl rx caps0 str (Suc off) (Some c) cs)"
          by (subst (asm) matches_from.simps) simp
        then show ?thesis
        proof
          assume "m = ?m" with here show ?thesis by simp
        next
          assume "m \<in> set (matches_from fl rx caps0 str (Suc off) (Some c) cs)"
          from "1.IH"(2)[OF Some kc[symmetric] True Cons p this] show ?thesis by simp
        qed
      qed
    next
      case False
      from exec_at_le[OF ex] have "k \<le> length rest" .
      from at_pos_jump[OF pos this False] have p: "at_pos str (off + k) (Some (rest ! (k - 1))) (drop k rest)" .
      from mem ex False have "m = ?m \<or> m \<in> set (matches_from fl rx caps0 str (off + k) (Some (rest ! (k - 1))) (drop k rest))"
        by (subst (asm) matches_from.simps) simp
      then show ?thesis
      proof
        assume "m = ?m" with here show ?thesis by simp
      next
        assume "m \<in> set (matches_from fl rx caps0 str (off + k) (Some (rest ! (k - 1))) (drop k rest))"
        from "1.IH"(3)[OF Some kc[symmetric] False p this] show ?thesis by simp
      qed
    qed
  qed
qed


lemma rebuild_step:
  assumes "drop off str = c # cs" "\<forall>m\<in>set ms. Suc off \<le> m_offset m"
  shows "rebuild str off ms rs = c # rebuild str (Suc off) ms rs"
proof -
  have d: "drop (Suc off) str = cs" using assms(1) by (metis drop_Suc tl_drop list.sel(3))
  show ?thesis
  proof (cases ms)
    case Nil
    then show ?thesis using assms(1) d by simp
  next
    case (Cons m ms')
    then have le: "Suc off \<le> m_offset m" using assms(2) by simp
    then obtain j where j: "m_offset m - off = Suc j" "m_offset m - Suc off = j"
      by (metis Suc_diff_Suc Suc_le_lessD)
    show ?thesis
    proof (cases rs)
      case Nil
      then show ?thesis using assms(1) d by simp
    next
      case (Cons r rs')
      with \<open>ms = m # ms'\<close> show ?thesis using assms(1) d j by simp
    qed
  qed
qed

lemma replace_from_decompose:
  "at_pos str off prev rest \<Longrightarrow>
   replace_from fl rx caps0 cb str off prev rest a =
     (case run_callbacks cb (matches_from fl rx caps0 str off prev rest) a of
        Inl e \<Rightarrow> Inl e
      | Inr (rs, a') \<Rightarrow> Inr (rebuild str off (matches_from fl rx caps0 str off prev rest) rs, a'))"
proof (induction fl rx caps0 cb str off prev rest a rule: replace_from.induct)
  case (1 fl rx caps0 cb str off prev rest a)
  note pos = "1.prems"(1)
  from pos have rest: "rest = drop off str" by (simp add: at_pos_def)
  show ?case
  proof (cases "exec_at fl rx caps0 rest prev")
    case None
    show ?thesis
    proof (cases rest)
      case Nil
      have ms: "matches_from fl rx caps0 str off prev rest = []"
        using None Nil by (subst matches_from.simps) simp
      show ?thesis unfolding ms using None Nil rest
        by (subst replace_from.simps) simp
    next
      case (Cons c cs)
      from pos Cons have p: "at_pos str (Suc off) (Some c) cs" by (auto intro: at_pos_step)
      let ?ms = "matches_from fl rx caps0 str (Suc off) (Some c) cs"
      have ms: "matches_from fl rx caps0 str off prev rest = ?ms"
        using None Cons by (subst matches_from.simps) simp
      have offs: "\<forall>m\<in>set ?ms. Suc off \<le> m_offset m" using matches_from_offsets[OF p] by blast
      have d: "drop off str = c # cs" using rest Cons by simp
      have step: "rebuild str off ?ms rs = c # rebuild str (Suc off) ?ms rs" for rs
        by (rule rebuild_step[OF d offs])
      show ?thesis
        unfolding ms using "1.IH"(1)[OF None Cons p] None Cons
        by (subst replace_from.simps) (simp add: step split: sum.splits prod.splits)
    qed
  next
    case (Some kc)
    obtain k caps where kc: "kc = (k, caps)" by (cases kc)
    let ?m = "\<lparr>m_match = take k rest, m_groups = caps, m_offset = off, m_str = str\<rparr>"
    from Some kc have ex: "exec_at fl rx caps0 rest prev = Some (k, caps)" by simp
    from exec_at_le[OF ex] have kle: "k \<le> length rest" .
    show ?thesis
    proof (cases "cb ?m a")
      case (Inl e)
      have "\<exists>ms. matches_from fl rx caps0 str off prev rest = ?m # ms"
        using ex by (subst matches_from.simps) simp
      then obtain ms where ms: "matches_from fl rx caps0 str off prev rest = ?m # ms" by blast
      show ?thesis unfolding ms using ex Inl
        by (subst replace_from.simps) simp
    next
      case (Inr ra)
      obtain r a1 where ra: "ra = (r, a1)" by (cases ra)
      with Inr have cbr: "cb ?m a = Inr (r, a1)" by simp
      show ?thesis
      proof (cases "k = 0")
        case True
        show ?thesis
        proof (cases rest)
          case Nil
          have ms: "matches_from fl rx caps0 str off prev rest = [?m]"
            using ex True Nil by (subst matches_from.simps) simp
          show ?thesis unfolding ms using ex True Nil cbr rest
            by (subst replace_from.simps) simp
        next
          case (Cons c cs)
          from pos Cons have p: "at_pos str (Suc off) (Some c) cs" by (auto intro: at_pos_step)
          let ?ms = "matches_from fl rx caps0 str (Suc off) (Some c) cs"
          have ms: "matches_from fl rx caps0 str off prev rest = ?m # ?ms"
            using ex True Cons by (subst matches_from.simps) simp
          have offs: "\<forall>m\<in>set ?ms. Suc off \<le> m_offset m" using matches_from_offsets[OF p] by blast
          have d: "drop off str = c # cs" using rest Cons by simp
          have step: "rebuild str off ?ms rs = c # rebuild str (Suc off) ?ms rs" for rs
            by (rule rebuild_step[OF d offs])
          show ?thesis
            unfolding ms using "1.IH"(2)[OF Some kc[symmetric] cbr refl True Cons p] ex True Cons cbr
            by (subst replace_from.simps) (simp add: step split: sum.splits prod.splits)
        qed
      next
        case False
        from at_pos_jump[OF pos kle False] have p: "at_pos str (off + k) (Some (rest ! (k - 1))) (drop k rest)" .
        let ?ms = "matches_from fl rx caps0 str (off + k) (Some (rest ! (k - 1))) (drop k rest)"
        have ms: "matches_from fl rx caps0 str off prev rest = ?m # ?ms"
          using ex False by (subst matches_from.simps) simp
        show ?thesis
          unfolding ms using "1.IH"(3)[OF Some kc[symmetric] cbr refl False p] ex False cbr kle
          by (subst replace_from.simps) (simp add: min_absorb2 split: sum.splits prod.splits)
      qed
    qed
  qed
qed

lemma js_replace_decompose:
  "js_replace fl rx cb str a =
     (case run_callbacks cb (js_matches fl rx str) a of
        Inl e \<Rightarrow> Inl e
      | Inr (rs, a') \<Rightarrow> Inr (rebuild str 0 (js_matches fl rx str) rs, a'))"
  unfolding js_replace_def js_matches_def by (rule replace_from_decompose[OF at_pos_start])

lemma js_matches_match_of: "m \<in> set (js_matches fl rx str) \<Longrightarrow> match_of fl rx str m"
  unfolding js_matches_def match_of_def using matches_from_offsets[OF at_pos_start] by blast

lemma run_callbacks_pure:
  "(\<And>m a. m \<in> set ms \<Longrightarrow> cb m a = Inr (f m, g m a)) \<Longrightarrow>
   run_callbacks cb ms a = Inr (map f ms, fold g ms a)"
  by (induction ms arbitrary: a) auto

lemma fold_keep: "fold (\<lambda>m a. a) ms a = a"
  by (induction ms) auto

lemma rebuild_matches: "rebuild str 0 (js_matches fl rx str) (map m_match (js_matches fl rx str)) = str"
proof -
  let ?cb = "\<lambda>(m :: match_args) (a :: acc). (Inr (m_match m, a) :: js_error + string \<times> acc)"
  have 1: "js_replace fl rx ?cb str a = Inr (str, a)" for a
  proof -
    have "\<exists>out a'. js_replace fl rx ?cb str a = Inr (out, a') \<and> a' = a \<and> (True \<longrightarrow> out = str)"
      by (rule js_replace_master) auto
    then show ?thesis by auto
  qed
  have 2: "run_callbacks ?cb (js_matches fl rx str) a = Inr (map m_match (js_matches fl rx str), a)" for a
    using run_callbacks_pure[of "js_matches fl rx str" ?cb m_match "\<lambda>m a. a" a]
    by (simp add: fold_keep)
  from 1[of "([], stats (initial []))"] show ?thesis unfolding js_replace_decompose 2 by simp
qed

lemma unchanged_rule:
  assumes "\<And>m a. m \<in> set (js_matches fl rx (convertedSQL st)) \<Longrightarrow> cb m a = Inr (m_match m, a)"
  shows "replace_rule fl rx cb st = Inr st"
proof -
  let ?ms = "js_matches fl rx (convertedSQL st)"
  have "run_callbacks cb ?ms (issues st, stats st) = Inr (map m_match ?ms, fold (\<lambda>m a. a) ?ms (issues st, stats st))"
    by (rule run_callbacks_pure) (rule assms)
  then have "run_callbacks cb ?ms (issues st, stats st) = Inr (map m_match ?ms, (issues st, stats st))"
    by (simp add: fold_keep)
  then show ?thesis
    by (simp add: replace_rule_def js_replace_decompose rebuild_matches)
qed

lemma addIssue_fst: "fst (addIssue a i) = fst a @ [i]"
  by (cases a) (simp add: addIssue_def Let_def split: issue_type.splits)

lemma fold_addIssue: "fst (fold (\<lambda>m a. addIssue a (f m)) ms a) = fst a @ map f ms"
  by (induction ms arbitrary: a) (simp_all add: addIssue_fst)

lemma replace_rule_pure:
  assumes "\<And>m a. m \<in> set (js_matches fl rx (convertedSQL st)) \<Longrightarrow> cb m a = Inr (f m, addIssue a (i m))"
  shows "\<exists>st'. replace_rule fl rx cb st = Inr st' \<and>
           convertedSQL st' = rebuild (convertedSQL st) 0 (js_matches fl rx (convertedSQL st))
                                (map f (js_matches fl rx (convertedSQL st))) \<and>
           issues st' = issues st @ map i (js_matches fl rx (convertedSQL st))"
proof -
  let ?ms = "js_matches fl rx (convertedSQL st)"
  let ?a = "fold (\<lambda>m a. addIssue a (i m)) ?ms (issues st, stats st)"
  have "run_callbacks cb ?ms (issues st, stats st) = Inr (map f ?ms, ?a)"
    by (rule run_callbacks_pure) (rule assms)
  moreover have "fst ?a = issues st @ map i ?ms" by (simp add: fold_addIssue)
  ultimately show ?thesis
    by (cases ?a) (auto simp: replace_rule_def js_replace_decompose)
qed

section \<open>The counters agree with the issues, and no rule throws\<close>

definition count_type :: "issue_type \<Rightarrow> ConversionIssue list \<Rightarrow> nat" where
  "count_type t iss = length (filter (\<lambda>i. issueType i = t) iss)"

definition stats_consistent :: "acc \<Rightarrow> bool" where
  "stats_consistent a =
     (warningsCount (snd a) = count_type Warning (fst a) \<and>
      errorsCount (snd a) = count_type Error (fst a) \<and>
      optimizationsCount (snd a) = count_type Info (fst a))"

lemma count_type_total:
  "count_type Warning iss + count_type Error iss + count_type Info iss = length iss"
proof (induction iss)
  case Nil
  then show ?case by (simp add: count_type_def)
next
  case (Cons i iss)
  then show ?case by (cases "issueType i") (simp_all add: count_type_def)
qed

lemma addIssue_consistent: "stats_consistent a \<Longrightarrow> stats_consistent (addIssue a i)"
  by (cases a; cases "issueType i") (simp_all add: stats_consistent_def addIssue_def count_type_def)

lemma push_warning_consistent:
  "issueType i = Warning \<Longrightarrow> stats_consistent a \<Longrightarrow> stats_consistent (push_warning a i)"
  by (cases a) (simp add: stats_consistent_def push_warning_def count_type_def)

lemma push_optimization_consistent:
  "issueType i = Info \<Longrightarrow> stats_consistent a \<Longrightarrow> stats_consistent (push_optimization a i)"
  by (cases a) (simp add: stats_consistent_def push_optimization_def count_type_def)

definition callback_ok :: "flags \<Rightarrow> regex \<Rightarrow> callback \<Rightarrow> bool" where
  "callback_ok fl rx cb =
     (\<forall>str m a. match_of fl rx str m \<longrightarrow> stats_consistent a \<longrightarrow>
        (case cb m a of Inl e \<Rightarrow> False | Inr ra \<Rightarrow> stats_consistent (snd ra)))"

definition consistent :: "ConversionResult \<Rightarrow> bool" where
  "consistent st = stats_consistent (issues st, stats st)"

definition rule_ok :: "rule \<Rightarrow> bool" where
  "rule_ok r = (\<forall>st. consistent st \<longrightarrow> (\<exists>st'. r st = Inr st' \<and> consistent st'))"

lemma replace_rule_ok: "callback_ok fl rx cb \<Longrightarrow> rule_ok (replace_rule fl rx cb)"
proof -
  assume ok: "callback_ok fl rx cb"
  show ?thesis unfolding rule_ok_def
  proof (intro allI impI)
    fix st assume c: "consistent st"
    have "\<exists>out a'. js_replace fl rx cb (convertedSQL st) (issues st, stats st) = Inr (out, a') \<and> stats_consistent a'
            \<and> (False \<longrightarrow> out = convertedSQL st)"
    proof (rule js_replace_master)
      fix m a assume "match_of fl rx (convertedSQL st) m" "stats_consistent a"
      with ok have "case cb m a of Inl e \<Rightarrow> False | Inr ra \<Rightarrow> stats_consistent (snd ra)"
        unfolding callback_ok_def by blast
      then show "\<exists>r a'. cb m a = Inr (r, a') \<and> stats_consistent a' \<and> (False \<longrightarrow> r = m_match m)"
        by (cases "cb m a") auto
    next
      show "stats_consistent (issues st, stats st)" using c by (simp add: consistent_def)
    qed
    then obtain out iss ss where "js_replace fl rx cb (convertedSQL st) (issues st, stats st) = Inr (out, (iss, ss))"
      "stats_consistent (iss, ss)" by auto
    then show "\<exists>st'. replace_rule fl rx cb st = Inr st' \<and> consistent st'"
      by (simp add: replace_rule_def consistent_def)
  qed
qed

lemmas consistent_intros = addIssue_consistent push_warning_consistent push_optimization_consistent

lemma cb_collation_ok: "callback_ok fl rx (cb_collation sqlContent mariadbCollation)"
  by (simp add: callback_ok_def cb_collation_def Let_def consistent_intros)

lemma cb_set_names_ok: "callback_ok fl rx (cb_set_names sqlContent)"
  by (simp add: callback_ok_def cb_set_names_def Let_def consistent_intros)

lemma cb_definer_ok: "callback_ok fl rx (cb_definer sqlContent)"
  by (simp add: callback_ok_def cb_definer_def consistent_intros)

lemma cb_dumping_ok: "callback_ok fl rx (cb_dumping sqlContent)"
  by (simp add: callback_ok_def cb_dumping_def consistent_intros)

lemma re_version_comment_groups:
  "always_sets re_version_comment 2" "distinct (groups_of re_version_comment)"
  by (simp_all add: re_version_comment_def dg_plus_def sp_plus_def Plus_def)

lemma cb_version_comment_ok: "callback_ok g_only re_version_comment (cb_version_comment sqlContent)"
  unfolding callback_ok_def
proof (intro allI impI)
  fix str m a
  assume m: "match_of g_only re_version_comment str m" and c: "stats_consistent a"
  from match_of_groups[OF m re_version_comment_groups] obtain s where "grp m 2 = Some s" by blast
  then show "case cb_version_comment sqlContent m a of Inl e \<Rightarrow> False | Inr ra \<Rightarrow> stats_consistent (snd ra)"
    using c by (simp add: cb_version_comment_def js_receiver_def Let_def consistent_intros)
qed

lemma cb_latin1_ok: "callback_ok fl rx (cb_latin1 sqlContent)"
  by (simp add: callback_ok_def cb_latin1_def Let_def consistent_intros)

lemma cb_using_btree_ok: "callback_ok fl rx (cb_using_btree sqlContent)"
  by (simp add: callback_ok_def cb_using_btree_def Let_def consistent_intros)

lemma cb_local_infile_ok: "callback_ok fl rx (cb_local_infile sqlContent)"
  by (simp add: callback_ok_def cb_local_infile_def Let_def consistent_intros)

lemma cb_foreign_key_checks_ok: "callback_ok fl rx (cb_foreign_key_checks sqlContent)"
  by (simp add: callback_ok_def cb_foreign_key_checks_def Let_def consistent_intros)

lemma cb_lock_tables_ok: "callback_ok fl rx (cb_lock_tables sqlContent)"
  by (simp add: callback_ok_def cb_lock_tables_def Let_def consistent_intros)

lemma cb_unlock_tables_ok: "callback_ok fl rx (cb_unlock_tables sqlContent)"
  by (simp add: callback_ok_def cb_unlock_tables_def Let_def consistent_intros)

lemma cb_default_character_set_ok: "callback_ok fl rx (cb_default_character_set sqlContent)"
  by (simp add: callback_ok_def cb_default_character_set_def Let_def consistent_intros)

lemma cb_default_charset_ok: "callback_ok fl rx (cb_default_charset sqlContent)"
  by (simp add: callback_ok_def cb_default_charset_def Let_def consistent_intros)

lemma cb_engine_innodb_ok: "callback_ok fl rx (cb_engine_innodb sqlContent)"
  by (simp add: callback_ok_def cb_engine_innodb_def Let_def consistent_intros)

lemma cb_int_ok: "callback_ok fl rx (cb_int sqlContent)"
  by (simp add: callback_ok_def cb_int_def Let_def consistent_intros)

lemma cb_cte_ok: "callback_ok fl rx (cb_cte sqlContent)"
  by (simp add: callback_ok_def cb_cte_def Let_def consistent_intros)

lemma cb_invisible_ok: "callback_ok fl rx (cb_invisible sqlContent)"
  by (simp add: callback_ok_def cb_invisible_def Let_def consistent_intros)

lemma cb_check_ok: "callback_ok fl rx (cb_check sqlContent)"
  by (simp add: callback_ok_def cb_check_def Let_def consistent_intros)

lemma cb_json_operator_ok: "callback_ok fl rx (cb_json_operator sqlContent)"
  by (simp add: callback_ok_def cb_json_operator_def Let_def consistent_intros)

lemma cb_fulltext_ok: "callback_ok fl rx (cb_fulltext sqlContent)"
  by (simp add: callback_ok_def cb_fulltext_def Let_def consistent_intros)

lemma cb_partition_ok: "callback_ok fl rx (cb_partition sqlContent)"
  by (simp add: callback_ok_def cb_partition_def Let_def consistent_intros)

lemma cb_auto_increment_ok: "callback_ok fl rx (cb_auto_increment sqlContent)"
  by (simp add: callback_ok_def cb_auto_increment_def Let_def consistent_intros)

lemma cb_timestamp_ok: "callback_ok fl rx (cb_timestamp sqlContent)"
  by (simp add: callback_ok_def cb_timestamp_def Let_def consistent_intros)

lemma cb_disable_keys_ok: "callback_ok fl rx (cb_disable_keys sqlContent)"
  by (simp add: callback_ok_def cb_disable_keys_def Let_def consistent_intros)

lemma cb_enable_keys_ok: "callback_ok fl rx (cb_enable_keys sqlContent)"
  by (simp add: callback_ok_def cb_enable_keys_def Let_def consistent_intros)

lemma cb_charset_utf8_ok: "callback_ok fl rx (cb_charset_utf8 sqlContent)"
  by (simp add: callback_ok_def cb_charset_utf8_def Let_def consistent_intros)

lemma cb_collate_general_ok: "callback_ok fl rx (cb_collate_general sqlContent)"
  by (simp add: callback_ok_def cb_collate_general_def Let_def consistent_intros)

lemma cb_character_set_utf8_ok: "callback_ok fl rx (cb_character_set_utf8 sqlContent)"
  by (simp add: callback_ok_def cb_character_set_utf8_def Let_def consistent_intros)

lemma cb_default_charset_utf8_ok: "callback_ok fl rx (cb_default_charset_utf8 sqlContent)"
  by (simp add: callback_ok_def cb_default_charset_utf8_def Let_def consistent_intros)

lemma cb_index_ok: "callback_ok fl rx (cb_index sqlContent)"
  by (simp add: callback_ok_def cb_index_def Let_def consistent_intros)

lemma cb_row_format_ok: "callback_ok fl rx (cb_row_format sqlContent)"
  by (simp add: callback_ok_def cb_row_format_def Let_def consistent_intros)

lemma cb_json_column_ok: "callback_ok fl rx (cb_json_column sqlContent)"
  by (simp add: callback_ok_def cb_json_column_def Let_def consistent_intros)

lemma cb_text_ok: "callback_ok fl rx (cb_text sqlContent)"
  by (simp add: callback_ok_def cb_text_def Let_def consistent_intros)

lemma cb_varchar_ok: "callback_ok fl rx (cb_varchar sqlContent)"
  by (simp add: callback_ok_def cb_varchar_def Let_def consistent_intros)

lemma cb_collate_unicode_ok: "callback_ok fl rx (cb_collate_unicode sqlContent)"
  by (simp add: callback_ok_def cb_collate_unicode_def Let_def consistent_intros)

lemma cb_create_if_not_exists_ok: "callback_ok fl rx (cb_create_if_not_exists sqlContent)"
  by (simp add: callback_ok_def cb_create_if_not_exists_def Let_def consistent_intros)

lemma cb_window_ok: "callback_ok fl rx (cb_window sqlContent func)"
  by (simp add: callback_ok_def cb_window_def Let_def consistent_intros)

lemma cb_json_function_ok: "callback_ok fl rx (cb_json_function sqlContent func)"
  by (simp add: callback_ok_def cb_json_function_def Let_def consistent_intros)

lemma re_sql_mode_groups:
  "always_sets re_sql_mode 1" "distinct (groups_of re_sql_mode)"
  by (simp_all add: re_sql_mode_def sp_star_def sp_plus_def Plus_def)

lemma cb_sql_mode_ok: "callback_ok gi re_sql_mode (cb_sql_mode sqlContent)"
  unfolding callback_ok_def
proof (intro allI impI)
  fix str m a
  assume m: "match_of gi re_sql_mode str m" and c: "stats_consistent a"
  from match_of_groups[OF m re_sql_mode_groups] obtain s where "grp m 1 = Some s" by blast
  then show "case cb_sql_mode sqlContent m a of Inl e \<Rightarrow> False | Inr ra \<Rightarrow> stats_consistent (snd ra)"
    using c by (simp add: cb_sql_mode_def js_receiver_def Let_def consistent_intros)
qed

lemma re_key_groups:
  "always_sets re_key 1" "distinct (groups_of re_key)"
  by (simp_all add: re_key_def sp_star_def sp_plus_def Plus_def)

lemma cb_key_ok: "callback_ok gim re_key (cb_key sqlContent)"
  unfolding callback_ok_def
proof (intro allI impI)
  fix str m a
  assume m: "match_of gim re_key str m" and c: "stats_consistent a"
  from match_of_groups[OF m re_key_groups] obtain s where "grp m 1 = Some s" by blast
  then show "case cb_key sqlContent m a of Inl e \<Rightarrow> False | Inr ra \<Rightarrow> stats_consistent (snd ra)"
    using c by (simp add: cb_key_def js_receiver_def Let_def consistent_intros)
qed

lemma for_each_line_consistent:
  "(\<And>line index a. stats_consistent a \<Longrightarrow> stats_consistent (f line index a)) \<Longrightarrow>
   stats_consistent a \<Longrightarrow> stats_consistent (for_each_line f ls index a)"
  by (induction ls arbitrary: index a) auto

lemma lines_rule_ok:
  assumes "\<And>line index a. stats_consistent a \<Longrightarrow> stats_consistent (f line index a)"
  shows "rule_ok (lines_rule f sqlContent)"
  unfolding rule_ok_def
proof (intro allI impI)
  fix st assume "consistent st"
  then have "stats_consistent (for_each_line f (js_split_nl sqlContent) 0 (issues st, stats st))"
    using assms by (intro for_each_line_consistent) (auto simp: consistent_def)
  then show "\<exists>st'. lines_rule f sqlContent st = Inr st' \<and> consistent st'"
    by (cases "for_each_line f (js_split_nl sqlContent) 0 (issues st, stats st)")
       (simp add: lines_rule_def consistent_def)
qed

lemma line_generated_ok: "rule_ok (lines_rule line_generated sqlContent)"
  by (rule lines_rule_ok) (simp add: line_generated_def consistent_intros)

lemma line_json_ok: "rule_ok (lines_rule line_json sqlContent)"
  by (rule lines_rule_ok) (simp add: line_json_def consistent_intros)

lemma rule_whitespace_ok: "rule_ok rule_whitespace"
  by (simp add: rule_ok_def rule_whitespace_def consistent_def)

lemma rule_header_ok: "rule_ok rule_header"
  unfolding rule_ok_def
proof (intro allI impI)
  fix st assume c: "consistent st"
  let ?i = "header_issue"
  have "stats_consistent (push_optimization (issues st, stats st) ?i)"
    using c by (intro push_optimization_consistent) (simp_all add: consistent_def header_issue_def)
  then show "\<exists>st'. rule_header st = Inr st' \<and> consistent st'"
    using c by (cases "push_optimization (issues st, stats st) ?i") (simp add: rule_header_def consistent_def)
qed

lemma rule_commit_ok: "rule_ok rule_commit"
  unfolding rule_ok_def
proof (intro allI impI)
  fix st assume c: "consistent st"
  let ?sql = "convertedSQL st @ [nl, nl] @ ''COMMIT;'' @ [nl]"
  let ?i = "commit_issue (length (js_split_nl ?sql))"
  have "stats_consistent (push_optimization (issues st, stats st) ?i)"
    using c by (intro push_optimization_consistent) (simp_all add: consistent_def commit_issue_def)
  then show "\<exists>st'. rule_commit st = Inr st' \<and> consistent st'"
    using c by (cases "push_optimization (issues st, stats st) ?i") (simp add: rule_commit_def consistent_def Let_def)
qed

lemma rules_ok: "list_all rule_ok (rules sqlContent)"
  unfolding rules_def
  by (auto simp add: list_all_iff rule_collation_def rule_window_def rule_json_function_def replace_rule_ok
      cb_collation_ok cb_set_names_ok cb_definer_ok cb_dumping_ok cb_version_comment_ok
      cb_create_if_not_exists_ok cb_latin1_ok cb_using_btree_ok cb_local_infile_ok
      cb_foreign_key_checks_ok cb_sql_mode_ok cb_lock_tables_ok cb_unlock_tables_ok
      cb_default_character_set_ok cb_default_charset_ok cb_engine_innodb_ok cb_int_ok cb_cte_ok
      cb_window_ok cb_invisible_ok cb_check_ok cb_json_function_ok cb_json_operator_ok cb_fulltext_ok
      cb_partition_ok cb_auto_increment_ok cb_timestamp_ok cb_disable_keys_ok cb_enable_keys_ok
      cb_charset_utf8_ok cb_collate_general_ok cb_key_ok cb_character_set_utf8_ok
      cb_default_charset_utf8_ok cb_index_ok cb_row_format_ok cb_json_column_ok cb_text_ok
      cb_varchar_ok cb_collate_unicode_ok line_generated_ok line_json_ok rule_whitespace_ok
      rule_header_ok rule_commit_ok)

lemma apply_rules_ok:
  "list_all rule_ok rs \<Longrightarrow> consistent st \<Longrightarrow> \<exists>st'. apply_rules rs st = Inr st' \<and> consistent st'"
proof (induction rs arbitrary: st)
  case Nil
  then show ?case by simp
next
  case (Cons r rs)
  from Cons.prems obtain st1 where "r st = Inr st1" "consistent st1" by (auto simp: rule_ok_def)
  with Cons show ?case by auto
qed

lemma initial_consistent: "consistent (initial sqlContent)"
  by (simp add: consistent_def stats_consistent_def initial_def count_type_def)

lemma convert_returns:
  "\<exists>st. apply_rules (rules sqlContent) (initial sqlContent) = Inr st \<and> consistent st \<and>
        convertMySQLToMariaDB sqlContent = Inr (st\<lparr>stats := (stats st)\<lparr>totalIssues := length (issues st)\<rparr>\<rparr>)"
  using apply_rules_ok[OF rules_ok[of sqlContent] initial_consistent[of sqlContent]]
  by (auto simp: convertMySQLToMariaDB_def)

section \<open>The conversion of the empty text\<close>

definition empty_result :: ConversionResult where
  "empty_result =
     \<lparr>convertedSQL = header, issues = [header_issue],
      stats = \<lparr>totalIssues = 1, autoFixedCount = 1, warningsCount = 0, errorsCount = 0,
               optimizationsCount = 1\<rparr>\<rparr>"

lemma convert_empty: "convertMySQLToMariaDB [] = Inr empty_result"
  by code_simp

section \<open>Claims\<close>

lemma js_indexOf_from_none: "0 \<le> i \<Longrightarrow> (js_indexOf_from i s p = - 1) = (\<not> js_includes s p)"
  by (induction s arbitrary: i) auto

lemma getLineNumber_not_found: "\<not> js_includes content searchText \<Longrightarrow> getLineNumber content searchText = 1"
  by (simp add: getLineNumber_def js_indexOf_def js_indexOf_from_none)

text \<open>
  Claim C7.  The conversion returns a result for every input text: no rule throws
  (the only operations that can throw are the method calls on a group of a match, in
  the rules for conditional comments, SQL_MODE and KEY, and those groups take part in
  every match; the matcher and the replace loop terminate).  A \<^verbatim>\<open>getLineNumber\<close>
  lookup of a text that does not occur in the content returns line 1.
\<close>

theorem convert_total:
  "(\<exists>r. convertMySQLToMariaDB sqlContent = Inr r) \<and>
   (\<not> js_includes content searchText \<longrightarrow> getLineNumber content searchText = 1)"
  using convert_returns[of sqlContent] getLineNumber_not_found by blast

theorem convert_total_witness:
  "(\<exists>r. convertMySQLToMariaDB [] = Inr r) \<and> \<not> js_includes ''abc'' ''x'' \<and> getLineNumber ''abc'' ''x'' = 1"
  using convert_total[of "[]" "''abc''" "''x''"] by (simp add: js_startsWith_def)

text \<open>
  Claim C8.  For every input, the returned statistics satisfy
  \<open>totalIssues = length issues\<close>, the three severity counters sum to \<open>totalIssues\<close>, and
  each counter is the number of issues of its severity: \<open>warningsCount\<close> counts the
  warnings, \<open>errorsCount\<close> the errors and \<open>optimizationsCount\<close> the infos.
\<close>

theorem stats_consistency:
  assumes "convertMySQLToMariaDB sqlContent = Inr r"
  shows "totalIssues (stats r) = length (issues r) \<and>
         warningsCount (stats r) + errorsCount (stats r) + optimizationsCount (stats r) = totalIssues (stats r) \<and>
         warningsCount (stats r) = count_type Warning (issues r) \<and>
         errorsCount (stats r) = count_type Error (issues r) \<and>
         optimizationsCount (stats r) = count_type Info (issues r)"
proof -
  from convert_returns[of sqlContent] assms obtain st where
    st: "consistent st" "r = st\<lparr>stats := (stats st)\<lparr>totalIssues := length (issues st)\<rparr>\<rparr>" by auto
  then show ?thesis using count_type_total[of "issues st"]
    by (simp add: consistent_def stats_consistent_def)
qed

theorem stats_consistency_witness:
  "convertMySQLToMariaDB [] = Inr empty_result \<and>
   totalIssues (stats empty_result) = length (issues empty_result) \<and>
   warningsCount (stats empty_result) + errorsCount (stats empty_result) +
     optimizationsCount (stats empty_result) = totalIssues (stats empty_result) \<and>
   warningsCount (stats empty_result) = count_type Warning (issues empty_result) \<and>
   errorsCount (stats empty_result) = count_type Error (issues empty_result) \<and>
   optimizationsCount (stats empty_result) = count_type Info (issues empty_result)"
  using stats_consistency[OF convert_empty] convert_empty by simp

lemma js_startsWith_append: "js_startsWith s p \<Longrightarrow> js_startsWith (s @ t) p"
  by (metis append_eq_conv_conj js_startsWith_def append.assoc)

lemma js_includes_append: "js_includes s p \<Longrightarrow> js_includes (s @ t) p"
proof (induction s)
  case Nil
  then show ?case by (cases t) (auto simp: js_startsWith_def)
next
  case (Cons c cs)
  then show ?case using js_startsWith_append[of "c # cs" p t] by auto
qed

lemma header_commit: "js_includes (js_toLowerCase header) ''commit''"
  by code_simp

lemma header_includes_commit: "js_includes (js_toLowerCase (header @ s)) ''commit''"
  using js_includes_append[OF header_commit] by (simp add: js_toLowerCase_def)

lemma no_commit_after_header:
  assumes "\<not> js_includes (convertedSQL st) ''SET NAMES utf8mb4''"
  shows "\<exists>st'. rule_header st = Inr st' \<and> convertedSQL st' = header @ convertedSQL st \<and>
               rule_commit st' = Inr st'"
  using assms header_includes_commit by (auto simp: rule_header_def rule_commit_def split: prod.splits)

text \<open>
  Claim C4.  The claim says that the empty text converts to the header followed by a
  trailing \<^verbatim>\<open>COMMIT;\<close>.  The code returns the header alone, with one issue: the header it
  has just prepended holds the line \<^verbatim>\<open>SET AUTOCOMMIT = 0;\<close>, so the test
  \<^verbatim>\<open>convertedSQL.toLowerCase().includes('commit')\<close> that guards the append step succeeds and
  the statement is not appended (lemma \<open>no_commit_after_header\<close>: this happens whenever the
  header is added).  The transaction the header opens is never committed.
\<close>

theorem convert_empty_no_commit:
  "convertMySQLToMariaDB [] = Inr empty_result \<and>
   convertedSQL empty_result = header \<and>
   \<not> js_includes (convertedSQL empty_result) ''COMMIT;'' \<and>
   convertedSQL empty_result \<noteq> header @ [nl, nl] @ ''COMMIT;'' @ [nl] \<and>
   totalIssues (stats empty_result) = 1"
proof -
  have "\<not> js_includes header ''COMMIT;''" by code_simp
  then show ?thesis using convert_empty by (simp add: empty_result_def)
qed

definition noop_issue :: "ConversionIssue \<Rightarrow> bool" where
  \<comment> \<open>an informational record of a statement that was kept: nothing fixed, no converted text\<close>
  "noop_issue i = (issueType i = Info \<and> category i = Compatibility \<and> \<not> autoFixed i \<and> convertedText i = None)"

definition create_if_not_exists_issue :: "string \<Rightarrow> match_args \<Rightarrow> ConversionIssue" where
  "create_if_not_exists_issue sqlContent m =
     \<lparr>lineNumber = Some (getLineNumber sqlContent (m_match m)),
      issueType = Info, category = Compatibility,
      description = ''CREATE TABLE IF NOT EXISTS is supported in MariaDB 10.3 - keeping original syntax for data safety'',
      originalText = Some (m_match m), convertedText = None,
      autoFixed = False\<rparr>"

lemma create_if_not_exists_step:
  "\<exists>st'. replace_rule gi re_create_if_not_exists (cb_create_if_not_exists sqlContent) st = Inr st' \<and>
         convertedSQL st' = convertedSQL st \<and>
         issues st' = issues st @ map (create_if_not_exists_issue sqlContent)
                                    (js_matches gi re_create_if_not_exists (convertedSQL st)) \<and>
         list_all noop_issue (map (create_if_not_exists_issue sqlContent)
                                    (js_matches gi re_create_if_not_exists (convertedSQL st)))"
proof -
  let ?ms = "js_matches gi re_create_if_not_exists (convertedSQL st)"
  have "\<exists>st'. replace_rule gi re_create_if_not_exists (cb_create_if_not_exists sqlContent) st = Inr st' \<and>
           convertedSQL st' = rebuild (convertedSQL st) 0 ?ms (map m_match ?ms) \<and>
           issues st' = issues st @ map (create_if_not_exists_issue sqlContent) ?ms"
    by (rule replace_rule_pure) (simp add: cb_create_if_not_exists_def create_if_not_exists_issue_def)
  moreover have "list_all noop_issue (map (create_if_not_exists_issue sqlContent) ?ms)"
    by (simp add: list_all_iff noop_issue_def create_if_not_exists_issue_def)
  ultimately show ?thesis by (simp add: rebuild_matches)
qed

definition quoted_name_sql :: string where
  "quoted_name_sql = ''CREATE TABLE IF NOT EXISTS '' @ [bq] @ ''blog-text'' @ [bq] @ '' (id int);''"

definition quoted_name_result :: ConversionResult where
  "quoted_name_result =
     \<lparr>convertedSQL = header @ ''CREATE TABLE IF NOT EXISTS '' @ [bq] @
                       ''blog-text CHARACTER SET utf8mb4 COLLATE utf8mb4_general_ci'' @ [bq] @ '' (id int);'',
      issues =
        [\<lparr>lineNumber = Some 1, issueType = Info, category = Compatibility,
          description = ''CREATE TABLE IF NOT EXISTS is supported in MariaDB 10.3 - keeping original syntax for data safety'',
          originalText = Some (''CREATE TABLE IF NOT EXISTS '' @ [bq] @ ''blog-text'' @ [bq]),
          convertedText = None, autoFixed = False\<rparr>,
         \<lparr>lineNumber = Some 1, issueType = Info, category = Optimization,
          description = ''Ensured text field uses utf8mb4 for complete data support (all characters, colors, formatting)'',
          originalText = Some ''text'',
          convertedText = Some ''text CHARACTER SET utf8mb4 COLLATE utf8mb4_general_ci'',
          autoFixed = True\<rparr>,
         header_issue],
      stats = \<lparr>totalIssues = 3, autoFixedCount = 2, warningsCount = 0, errorsCount = 0,
               optimizationsCount = 3\<rparr>\<rparr>"

lemma convert_quoted_name: "convertMySQLToMariaDB quoted_name_sql = Inr quoted_name_result"
  by code_simp

lemma quoted_name_facts:
  "map m_match (js_matches gi re_create_if_not_exists quoted_name_sql) =
     [''CREATE TABLE IF NOT EXISTS '' @ [bq] @ ''blog-text'' @ [bq]]"
  "\<not> js_includes (convertedSQL quoted_name_result) (''CREATE TABLE IF NOT EXISTS '' @ [bq] @ ''blog-text'' @ [bq])"
  by code_simp+

text \<open>
  Claim C2.  The claim says that every occurrence of \<^verbatim>\<open>CREATE TABLE IF NOT EXISTS\<close> is left
  unchanged in \<^verbatim>\<open>convertedSQL\<close> and is only recorded as an informational issue.  The rule
  for the statement does so on its own (lemma \<open>create_if_not_exists_step\<close>: the working copy
  stays as it is and one such issue is added for each match), but a later rule rewrites
  inside the occurrence.  On \<^verbatim>\<open>CREATE TABLE IF NOT EXISTS `blog-text` (id int);\<close> the rule for
  text columns, which looks for the words \<^verbatim>\<open>text\<close>, \<^verbatim>\<open>longtext\<close>, \<^verbatim>\<open>mediumtext\<close> and
  \<^verbatim>\<open>tinytext\<close> after a \<^verbatim>\<open>CREATE TABLE\<close> and does not see that the word stands inside a
  back-quoted name, replaces the end of the table name: the text returned holds
  \<^verbatim>\<open>CREATE TABLE IF NOT EXISTS `blog-text CHARACTER SET utf8mb4 COLLATE utf8mb4_general_ci` (id int);\<close>
  and no longer holds the occurrence that the first issue reports as kept.  The statement
  now creates a table of another name.
\<close>

theorem create_if_not_exists_name_rewritten:
  "convertMySQLToMariaDB quoted_name_sql = Inr quoted_name_result \<and>
   map m_match (js_matches gi re_create_if_not_exists quoted_name_sql) =
     [''CREATE TABLE IF NOT EXISTS '' @ [bq] @ ''blog-text'' @ [bq]] \<and>
   convertedSQL quoted_name_result =
     header @ ''CREATE TABLE IF NOT EXISTS '' @ [bq] @
       ''blog-text CHARACTER SET utf8mb4 COLLATE utf8mb4_general_ci'' @ [bq] @ '' (id int);'' \<and>
   \<not> js_includes (convertedSQL quoted_name_result) (''CREATE TABLE IF NOT EXISTS '' @ [bq] @ ''blog-text'' @ [bq]) \<and>
   noop_issue (hd (issues quoted_name_result)) \<and>
   originalText (issues quoted_name_result ! 1) = Some ''text'' \<and>
   autoFixed (issues quoted_name_result ! 1)"
  using convert_quoted_name quoted_name_facts by (simp add: quoted_name_result_def noop_issue_def)

definition engine_result :: ConversionResult where
  "engine_result =
     \<lparr>convertedSQL = header @ ''ENGINE=InnoDB'',
      issues =
        [\<lparr>lineNumber = Some 1, issueType = Info, category = Compatibility,
          description = ''Verified InnoDB engine declaration is MariaDB 10.3 compatible'',
          originalText = Some ''ENGINE=InnoDB'', convertedText = Some ''ENGINE=InnoDB'',
          autoFixed = True\<rparr>,
         header_issue],
      stats = \<lparr>totalIssues = 2, autoFixedCount = 2, warningsCount = 0, errorsCount = 0,
               optimizationsCount = 2\<rparr>\<rparr>"

lemma convert_engine: "convertMySQLToMariaDB ''ENGINE=InnoDB'' = Inr engine_result"
  by code_simp

text \<open>
  Claim C10.  The claim says that an issue is marked \<^verbatim>\<open>autoFixed\<close> only if its rule rewrote
  the matched text.  The rules for \<^verbatim>\<open>ENGINE=InnoDB\<close>, \<^verbatim>\<open>AUTO_INCREMENT=n\<close>,
  \<^verbatim>\<open>DISABLE KEYS\<close> and \<^verbatim>\<open>ENABLE KEYS\<close> return the match itself and still record the issue with
  \<^verbatim>\<open>autoFixed: true\<close> (and count it in \<^verbatim>\<open>stats.autoFixed\<close>), where the other rules that
  keep the text, such as the one for \<^verbatim>\<open>CREATE TABLE IF NOT EXISTS\<close>, record \<^verbatim>\<open>autoFixed: false\<close>.
  On the input \<^verbatim>\<open>ENGINE=InnoDB\<close> the text is kept, the issue says it was fixed, and the
  callbacks of the four rules do so at every match.
\<close>

theorem engine_innodb_marked_fixed:
  "convertMySQLToMariaDB ''ENGINE=InnoDB'' = Inr engine_result \<and>
   convertedSQL engine_result = header @ ''ENGINE=InnoDB'' \<and>
   autoFixed (hd (issues engine_result)) \<and>
   originalText (hd (issues engine_result)) = Some ''ENGINE=InnoDB'' \<and>
   convertedText (hd (issues engine_result)) = Some ''ENGINE=InnoDB'' \<and>
   autoFixedCount (stats engine_result) = 2 \<and>
   (\<exists>i. cb_engine_innodb sqlContent m a = Inr (m_match m, addIssue a i) \<and> autoFixed i) \<and>
   (\<exists>i. cb_auto_increment sqlContent m a = Inr (m_match m, addIssue a i) \<and> autoFixed i) \<and>
   (\<exists>i. cb_disable_keys sqlContent m a = Inr (m_match m, push_optimization a i) \<and> autoFixed i) \<and>
   (\<exists>i. cb_enable_keys sqlContent m a = Inr (m_match m, push_optimization a i) \<and> autoFixed i)"
proof -
  have "\<exists>i. cb_engine_innodb sqlContent m a = Inr (m_match m, addIssue a i) \<and> autoFixed i"
    unfolding cb_engine_innodb_def by (intro exI conjI, rule refl, simp)
  moreover have "\<exists>i. cb_auto_increment sqlContent m a = Inr (m_match m, addIssue a i) \<and> autoFixed i"
    unfolding cb_auto_increment_def by (intro exI conjI, rule refl, simp)
  moreover have "\<exists>i. cb_disable_keys sqlContent m a = Inr (m_match m, push_optimization a i) \<and> autoFixed i"
    unfolding cb_disable_keys_def by (intro exI conjI, rule refl, simp)
  moreover have "\<exists>i. cb_enable_keys sqlContent m a = Inr (m_match m, push_optimization a i) \<and> autoFixed i"
    unfolding cb_enable_keys_def by (intro exI conjI, rule refl, simp)
  moreover have "autoFixed (hd (issues engine_result)) \<and>
      originalText (hd (issues engine_result)) = Some ''ENGINE=InnoDB'' \<and>
      convertedText (hd (issues engine_result)) = Some ''ENGINE=InnoDB'' \<and>
      autoFixedCount (stats engine_result) = 2 \<and>
      convertedSQL engine_result = header @ ''ENGINE=InnoDB''"
    by (simp add: engine_result_def)
  ultimately show ?thesis using convert_engine by blast
qed

lemma run_Alt_Nil: "run fl (Alt a b) st = [] \<Longrightarrow> run fl a st = []"
  by (simp add: run.simps(6))

lemma no_captures_create: "no_captures re_create_or_alter_table = no_captures re_create_table"
  by (simp add: no_captures_def ngroups_def re_create_or_alter_table_def re_create_table_def sp_plus_def Plus_def)

lemma exec_at_create:
  "exec_at fl re_create_or_alter_table caps0 rest prev = None \<Longrightarrow> exec_at fl re_create_table caps0 rest prev = None"
proof -
  assume "exec_at fl re_create_or_alter_table caps0 rest prev = None"
  then have "run fl re_create_or_alter_table (rest, prev, caps0) = []"
    by (auto simp: exec_at_def split: list.splits)
  then have "run fl re_create_table (rest, prev, caps0) = []"
    unfolding re_create_or_alter_table_def re_create_table_def by (rule run_Alt_Nil)
  then show ?thesis by (simp add: exec_at_def)
qed

lemma search_create:
  "search fl re_create_or_alter_table caps0 off prev s = None \<Longrightarrow> search fl re_create_table caps0 off prev s = None"
  by (induction s arbitrary: off prev) (auto split: option.splits dest: exec_at_create)

lemma test_create:
  "\<not> js_test ci re_create_or_alter_table s \<Longrightarrow> \<not> js_test ci re_create_table s"
proof -
  assume "\<not> js_test ci re_create_or_alter_table s"
  then have "search ci re_create_or_alter_table (no_captures re_create_table) 0 None s = None"
    unfolding js_test_def no_captures_create by blast
  from search_create[OF this] show ?thesis unfolding js_test_def by blast
qed

definition not_in_ddl :: "match_args \<Rightarrow> int \<Rightarrow> bool" where
  \<comment> \<open>no DDL keyword in the window characters before the match\<close>
  "not_in_ddl m window = (\<not> js_test ci re_create_or_alter_table (beforeMatch m window))"

lemma guarded_callbacks:
  "not_in_ddl m 300 \<Longrightarrow> cb_text sqlContent m a = Inr (m_match m, a)"
  "not_in_ddl m 300 \<Longrightarrow> cb_varchar sqlContent m a = Inr (m_match m, a)"
  "not_in_ddl m 500 \<Longrightarrow> cb_collate_general sqlContent m a = Inr (m_match m, a)"
  "not_in_ddl m 500 \<Longrightarrow> cb_collate_unicode sqlContent m a = Inr (m_match m, a)"
  by (simp_all add: not_in_ddl_def cb_text_def cb_varchar_def cb_collate_general_def cb_collate_unicode_def test_create)


definition insert_sql :: string where
  "insert_sql = ''INSERT INTO t (c) VALUES ('' @ [sq] @ ''varchar(10) is a string'' @ [sq] @ '')''"


definition insert_match :: match_args where
  "insert_match = \<lparr>m_match = ''varchar(10)'', m_groups = [None, Some ''10''], m_offset = 27, m_str = insert_sql\<rparr>"

lemma insert_matches:
  "js_matches gi re_varchar insert_sql = [insert_match]"
  "js_matches gi re_text insert_sql = []"
  "js_matches gi re_collate_general insert_sql = []"
  "js_matches gi re_collate_unicode insert_sql = []"
  by code_simp+

lemma insert_not_in_ddl: "not_in_ddl insert_match 300"
  by code_simp

definition insert_result :: ConversionResult where
  "insert_result =
     \<lparr>convertedSQL = header @ insert_sql, issues = [header_issue],
      stats = \<lparr>totalIssues = 1, autoFixedCount = 1, warningsCount = 0, errorsCount = 0,
               optimizationsCount = 1\<rparr>\<rparr>"

lemma convert_insert: "convertMySQLToMariaDB insert_sql = Inr insert_result"
  by code_simp

text \<open>
  The look back of the guarded rules.  The rules for text columns, for \<^verbatim>\<open>varchar(N)\<close> and for
  \<^verbatim>\<open>COLLATE utf8_general_ci\<close> and \<^verbatim>\<open>COLLATE utf8_unicode_ci\<close> look back from each match (300
  characters for the first two, 500 for the collations), in the working copy that reaches
  the rule.  When that window holds neither \<^verbatim>\<open>CREATE TABLE\<close> nor \<^verbatim>\<open>ALTER TABLE\<close>, the callback
  returns the match itself and adds no issue; and a text all of whose matches are so leaves
  the rule with the same working copy, the same issues and the same counters.  On the text
  \<^verbatim>\<open>INSERT INTO t (c) VALUES ('varchar(10) is a string')\<close> the whole conversion only adds the
  header.
\<close>

theorem ddl_guard:
  "(not_in_ddl m 300 \<longrightarrow> cb_text sqlContent m a = Inr (m_match m, a)) \<and>
   (not_in_ddl m 300 \<longrightarrow> cb_varchar sqlContent m a = Inr (m_match m, a)) \<and>
   (not_in_ddl m 500 \<longrightarrow> cb_collate_general sqlContent m a = Inr (m_match m, a)) \<and>
   (not_in_ddl m 500 \<longrightarrow> cb_collate_unicode sqlContent m a = Inr (m_match m, a)) \<and>
   (list_all (\<lambda>m. not_in_ddl m 300) (js_matches gi re_text (convertedSQL st)) \<longrightarrow>
      replace_rule gi re_text (cb_text sqlContent) st = Inr st) \<and>
   (list_all (\<lambda>m. not_in_ddl m 300) (js_matches gi re_varchar (convertedSQL st)) \<longrightarrow>
      replace_rule gi re_varchar (cb_varchar sqlContent) st = Inr st) \<and>
   (list_all (\<lambda>m. not_in_ddl m 500) (js_matches gi re_collate_general (convertedSQL st)) \<longrightarrow>
      replace_rule gi re_collate_general (cb_collate_general sqlContent) st = Inr st) \<and>
   (list_all (\<lambda>m. not_in_ddl m 500) (js_matches gi re_collate_unicode (convertedSQL st)) \<longrightarrow>
      replace_rule gi re_collate_unicode (cb_collate_unicode sqlContent) st = Inr st)"
  using guarded_callbacks unchanged_rule by (simp add: list_all_iff)

definition literal_sql :: string where
  "literal_sql = ''INSERT INTO t VALUES ('' @ [sq] @ ''text COLLATE utf8_general_ci COLLATE utf8_unicode_ci'' @ [sq] @ '')''"

lemma literal_matches:
  "list_all (\<lambda>m. not_in_ddl m 300) (js_matches gi re_text literal_sql)"
  "list_all (\<lambda>m. not_in_ddl m 500) (js_matches gi re_collate_general literal_sql)"
  "list_all (\<lambda>m. not_in_ddl m 500) (js_matches gi re_collate_unicode literal_sql)"
  "map m_match (js_matches gi re_text literal_sql) = [''text COLLATE utf8_general_ci'']"
  "map m_match (js_matches gi re_collate_general literal_sql) = [''COLLATE utf8_general_ci'']"
  "map m_match (js_matches gi re_collate_unicode literal_sql) = [''COLLATE utf8_unicode_ci'']"
  by code_simp+

theorem ddl_guard_witness:
  "not_in_ddl insert_match 300 \<and>
   cb_varchar insert_sql insert_match ([], stats (initial insert_sql)) =
     Inr (''varchar(10)'', ([], stats (initial insert_sql))) \<and>
   js_matches gi re_varchar insert_sql = [insert_match] \<and>
   replace_rule gi re_varchar (cb_varchar insert_sql) (initial insert_sql) = Inr (initial insert_sql) \<and>
   convertMySQLToMariaDB insert_sql = Inr insert_result \<and>
   convertedSQL insert_result = header @ insert_sql \<and> issues insert_result = [header_issue] \<and>
   map m_match (js_matches gi re_text literal_sql) = [''text COLLATE utf8_general_ci''] \<and>
   replace_rule gi re_text (cb_text literal_sql) (initial literal_sql) = Inr (initial literal_sql) \<and>
   map m_match (js_matches gi re_collate_general literal_sql) = [''COLLATE utf8_general_ci''] \<and>
   replace_rule gi re_collate_general (cb_collate_general literal_sql) (initial literal_sql) = Inr (initial literal_sql) \<and>
   map m_match (js_matches gi re_collate_unicode literal_sql) = [''COLLATE utf8_unicode_ci''] \<and>
   replace_rule gi re_collate_unicode (cb_collate_unicode literal_sql) (initial literal_sql) = Inr (initial literal_sql)"
  using ddl_guard[of insert_match insert_sql "([], stats (initial insert_sql))" "initial insert_sql"]
    ddl_guard[of insert_match literal_sql "([], stats (initial insert_sql))" "initial literal_sql"]
    insert_matches insert_not_in_ddl convert_insert literal_matches
  by (simp add: initial_def insert_result_def insert_match_def)

definition literal_collation_sql :: string where
  "literal_collation_sql =
     ''INSERT INTO t VALUES ('' @ [sq] @ ''CHARACTER SET utf8 COLLATE utf8_general_ci'' @ [sq] @ '')''"

definition literal_collation_result :: ConversionResult where
  "literal_collation_result =
     \<lparr>convertedSQL = header @ ''INSERT INTO t VALUES ('' @ [sq] @
                       ''CHARACTER SET utf8mb4 COLLATE utf8mb4_general_ci'' @ [sq] @ '')'',
      issues =
        [\<lparr>lineNumber = Some 1, issueType = Warning, category = Compatibility,
          description = ''Upgraded character set to utf8mb4 for full unicode support (emojis, colors, special characters)'',
          originalText = Some ''CHARACTER SET utf8 COLLATE utf8_general_ci'',
          convertedText = Some ''CHARACTER SET utf8mb4 COLLATE utf8mb4_general_ci'',
          autoFixed = True\<rparr>,
         header_issue],
      stats = \<lparr>totalIssues = 2, autoFixedCount = 2, warningsCount = 1, errorsCount = 0,
               optimizationsCount = 1\<rparr>\<rparr>"

lemma convert_literal_collation: "convertMySQLToMariaDB literal_collation_sql = Inr literal_collation_result"
  by code_simp

lemma literal_collation_facts:
  "map m_match (js_matches gi re_collate_general literal_collation_sql) = [''COLLATE utf8_general_ci'']"
  "list_all (\<lambda>m. not_in_ddl m 500) (js_matches gi re_collate_general literal_collation_sql)"
  "\<not> js_test ci re_create_or_alter_table literal_collation_sql"
  "\<not> js_includes (convertedSQL literal_collation_result) ''COLLATE utf8_general_ci''"
  "map m_match (js_matches gi re_character_set_utf8 literal_collation_sql) =
     [''CHARACTER SET utf8 COLLATE utf8_general_ci'']"
  by code_simp+

text \<open>
  Claim C3.  The claim says that a \<^verbatim>\<open>COLLATE utf8_general_ci\<close> token that no \<^verbatim>\<open>CREATE TABLE\<close>
  or \<^verbatim>\<open>ALTER TABLE\<close> precedes is left unchanged in \<^verbatim>\<open>convertedSQL\<close>.  On the input
  \<^verbatim>\<open>INSERT INTO t VALUES ('CHARACTER SET utf8 COLLATE utf8_general_ci')\<close>, which has no DDL
  keyword anywhere, the guarded rule for the token finds it and leaves it; but the rule for
  \<^verbatim>\<open>CHARACTER SET utf8 COLLATE utf8_general_ci\<close>, two steps later, has no look back at all,
  where the rules around it have one, and rewrites the literal inside \<^verbatim>\<open>VALUES\<close>.  The text
  returned holds \<^verbatim>\<open>'CHARACTER SET utf8mb4 COLLATE utf8mb4_general_ci'\<close>, the token is gone
  from it, and the change is recorded as a fix.
\<close>

theorem literal_collation_rewritten:
  "convertMySQLToMariaDB literal_collation_sql = Inr literal_collation_result \<and>
   \<not> js_test ci re_create_or_alter_table literal_collation_sql \<and>
   map m_match (js_matches gi re_collate_general literal_collation_sql) = [''COLLATE utf8_general_ci''] \<and>
   list_all (\<lambda>m. not_in_ddl m 500) (js_matches gi re_collate_general literal_collation_sql) \<and>
   map m_match (js_matches gi re_character_set_utf8 literal_collation_sql) =
     [''CHARACTER SET utf8 COLLATE utf8_general_ci''] \<and>
   convertedSQL literal_collation_result =
     header @ ''INSERT INTO t VALUES ('' @ [sq] @
       ''CHARACTER SET utf8mb4 COLLATE utf8mb4_general_ci'' @ [sq] @ '')'' \<and>
   \<not> js_includes (convertedSQL literal_collation_result) ''COLLATE utf8_general_ci'' \<and>
   originalText (hd (issues literal_collation_result)) = Some ''CHARACTER SET utf8 COLLATE utf8_general_ci'' \<and>
   autoFixed (hd (issues literal_collation_result))"
  using convert_literal_collation literal_collation_facts by (simp add: literal_collation_result_def)

lemma at_sign [simp]: "(to_upper c = CHR ''@'') = (c = CHR ''@'')" "(CHR ''@'' = to_upper c) = (c = CHR ''@'')"
  by (cases c; auto)+

lemma lit_prefix_at: "lit_prefix ci ''@@'' s = js_startsWith s ''@@''"
  by (cases s; cases "tl s") (auto simp: js_startsWith_def char_eq_def ci_def)

lemma at_not_space: "is_space c \<Longrightarrow> \<not> char_eq ci (hd ''@@'') c"
  by (auto simp: char_eq_def ci_def)

definition denied :: "string \<Rightarrow> bool" where
  "denied t =
     (js_startsWith t ''@@'' \<or>
      (js_startsWith (js_toUpperCase t) ''SET'' \<and> space_then (\<lambda>r. js_startsWith r ''@@'') (drop 3 t)) \<or>
      js_includes (js_toUpperCase t) ''USE_INDEX'' \<or>
      js_includes (js_toUpperCase t) ''FORCE_INDEX'' \<or>
      js_includes (js_toUpperCase t) ''IGNORE_INDEX'' \<or>
      js_includes (js_toUpperCase t) ''SQL_CALC_FOUND_ROWS'')"

lemma test_at: "js_test ci (Seq Bol (Lit ''@@'')) t = js_startsWith t ''@@''"
  by (simp add: test_Bol run_Lit_Nil lit_prefix_at)

lemma test_set_at:
  "js_test ci (Seq Bol (Seq (Lit ''SET'') (Seq sp_plus (Lit ''@@'')))) t =
   (js_startsWith (js_toUpperCase t) ''SET'' \<and> space_then (\<lambda>r. js_startsWith r ''@@'') (drop 3 t))"
proof (cases "lit_prefix ci ''SET'' t")
  case False
  then have "run ci (Lit ''SET'') (t, None, caps) = []" for caps by (simp add: run_Lit_Nil)
  then show ?thesis using False by (simp add: test_Bol run.simps(5) lit_prefix_ci js_toUpperCase_def)
next
  case True
  have e: "(run ci (Seq sp_plus (Lit ''@@'')) (rest, prev, caps) = []) = (\<not> space_then (\<lambda>r. js_startsWith r ''@@'') rest)"
    for rest prev caps
    using plus_space_lit[of "''@@''" ci rest prev caps] at_not_space
    by (simp add: lit_prefix_at[abs_def])
  from run_Lit_Some[OF True] obtain p where
    "run ci (Lit ''SET'') (t, None, no_captures (Seq Bol (Seq (Lit ''SET'') (Seq sp_plus (Lit ''@@''))))) =
       [(drop (length ''SET'') t, p, no_captures (Seq Bol (Seq (Lit ''SET'') (Seq sp_plus (Lit ''@@'')))))]"
    by blast
  then show ?thesis using True e
    by (simp add: test_Bol run.simps(5) lit_prefix_ci js_toUpperCase_def numeral_3_eq_3)
qed

lemma isProblematic_denied: "isProblematic t = denied t"
  unfolding isProblematic_def problematicHints_def denied_def
  by (simp add: test_at test_set_at test_Lit js_toUpperCase_def)

definition comment_content :: "match_args \<Rightarrow> string" where
  "comment_content m = js_trim (js_or_empty (grp m 2))"

definition comment_replacement :: "match_args \<Rightarrow> string" where
  "comment_replacement m = (if denied (comment_content m) then [] else m_match m)"

definition comment_issue :: "string \<Rightarrow> match_args \<Rightarrow> ConversionIssue" where
  "comment_issue sqlContent m =
     (if denied (comment_content m) then
        \<lparr>lineNumber = Some (getLineNumber sqlContent (m_match m)), issueType = Warning,
         category = Compatibility,
         description = ''Removed problematic MySQL-specific optimizer hint or setting'',
         originalText = Some (m_match m), convertedText = Some ''-- Removed problematic hint'',
         autoFixed = True\<rparr>
      else
        \<lparr>lineNumber = Some (getLineNumber sqlContent (m_match m)), issueType = Info,
         category = Compatibility,
         description = ''MySQL version comment preserved with conditional semantics for compatibility'',
         originalText = Some (m_match m), convertedText = None,
         autoFixed = False\<rparr>)"

text \<open>
  Claim C5, as the code has it.  The rule for conditional comments replaces every match of
  \<^verbatim>\<open>/\/\*!(\d+)\s+([\s\S]*?)\*\//g\<close> by the empty text when the trimmed content is on the
  deny list, and by the match itself otherwise, and records one issue for each match (a
  warning marked fixed for a deleted comment, an information not marked fixed for a kept
  one).  The content is on the deny list when it \<^emph>\<open>starts\<close> with \<^verbatim>\<open>@@\<close>, or starts with
  \<^verbatim>\<open>SET\<close>, white space and \<^verbatim>\<open>@@\<close>, or holds one of \<^verbatim>\<open>USE_INDEX\<close>, \<^verbatim>\<open>FORCE_INDEX\<close>,
  \<^verbatim>\<open>IGNORE_INDEX\<close>, \<^verbatim>\<open>SQL_CALC_FOUND_ROWS\<close> anywhere, letters compared without case
  (\<open>denied\<close>, equal to the test of the six regular expressions by \<open>isProblematic_denied\<close>).
  A variable reference further inside the content does not put it on the list.
\<close>

theorem conditional_comment_triage:
  "\<exists>st'. replace_rule g_only re_version_comment (cb_version_comment sqlContent) st = Inr st' \<and>
         convertedSQL st' =
           rebuild (convertedSQL st) 0 (js_matches g_only re_version_comment (convertedSQL st))
             (map comment_replacement (js_matches g_only re_version_comment (convertedSQL st))) \<and>
         issues st' =
           issues st @ map (comment_issue sqlContent) (js_matches g_only re_version_comment (convertedSQL st))"
proof (rule replace_rule_pure)
  fix m :: match_args and a :: acc
  assume "m \<in> set (js_matches g_only re_version_comment (convertedSQL st))"
  then have "match_of g_only re_version_comment (convertedSQL st) m" by (rule js_matches_match_of)
  from match_of_groups[OF this re_version_comment_groups] obtain s where "grp m 2 = Some s" by blast
  then show "cb_version_comment sqlContent m a = Inr (comment_replacement m, addIssue a (comment_issue sqlContent m))"
    by (simp add: cb_version_comment_def js_receiver_def Let_def isProblematic_denied comment_replacement_def
        comment_issue_def comment_content_def js_or_empty_def)
qed

text \<open>
  The claim as stated fails on a line every dump starts with: the content holds a variable
  reference, and the comment is kept.
\<close>

definition dump_comment :: string where
  "dump_comment = ''/*!40101 SET @OLD_CHARACTER_SET_CLIENT=@@CHARACTER_SET_CLIENT */''"

definition dump_result :: ConversionResult where
  "dump_result =
     \<lparr>convertedSQL = header @ dump_comment,
      issues =
        [\<lparr>lineNumber = Some 1, issueType = Info, category = Compatibility,
          description = ''MySQL version comment preserved with conditional semantics for compatibility'',
          originalText = Some dump_comment, convertedText = None, autoFixed = False\<rparr>,
         header_issue],
      stats = \<lparr>totalIssues = 2, autoFixedCount = 1, warningsCount = 0, errorsCount = 0,
               optimizationsCount = 2\<rparr>\<rparr>"

lemma convert_dump_comment: "convertMySQLToMariaDB dump_comment = Inr dump_result"
  by code_simp

lemma dump_comment_facts:
  "js_includes (js_trim ''SET @OLD_CHARACTER_SET_CLIENT=@@CHARACTER_SET_CLIENT '') ''@@''"
  "map (\<lambda>m. js_or_empty (grp m 2)) (js_matches g_only re_version_comment dump_comment) =
     [''SET @OLD_CHARACTER_SET_CLIENT=@@CHARACTER_SET_CLIENT '']"
  by code_simp+

theorem variable_reference_kept:
  "map (\<lambda>m. js_or_empty (grp m 2)) (js_matches g_only re_version_comment dump_comment) =
     [''SET @OLD_CHARACTER_SET_CLIENT=@@CHARACTER_SET_CLIENT ''] \<and>
   js_includes (js_trim ''SET @OLD_CHARACTER_SET_CLIENT=@@CHARACTER_SET_CLIENT '') ''@@'' \<and>
   convertMySQLToMariaDB dump_comment = Inr dump_result \<and>
   convertedSQL dump_result = header @ dump_comment"
  using convert_dump_comment dump_comment_facts by (simp add: dump_result_def)

definition two_comments :: string where
  "two_comments = ''/*!40101 SET @a=@@b */;/*!40101 set  @@c=1 */;/*!50000 x use_index */''"

lemma two_comments_facts:
  "rebuild two_comments 0 (js_matches g_only re_version_comment two_comments)
     (map comment_replacement (js_matches g_only re_version_comment two_comments)) =
   ''/*!40101 SET @a=@@b */;;''"
  "map issueType (map (comment_issue two_comments) (js_matches g_only re_version_comment two_comments)) =
   [Info, Warning, Warning]"
  by code_simp+

theorem conditional_comment_triage_witness:
  "\<exists>st'. replace_rule g_only re_version_comment (cb_version_comment two_comments) (initial two_comments) = Inr st' \<and>
         convertedSQL st' = ''/*!40101 SET @a=@@b */;;'' \<and>
         map issueType (issues st') = [Info, Warning, Warning]"
  using conditional_comment_triage[of two_comments "initial two_comments"] two_comments_facts
  by (auto simp: initial_def)

definition invisible_replacement :: "match_args \<Rightarrow> string" where
  "invisible_replacement m =
     js_or_empty (grp m 1) @ '' '' @ js_or_empty (grp m 2) @ '' -- INVISIBLE not supported in MariaDB 10.3''"

definition invisible_issue :: "string \<Rightarrow> match_args \<Rightarrow> ConversionIssue" where
  "invisible_issue sqlContent m =
     \<lparr>lineNumber = Some (getLineNumber sqlContent (m_match m)),
      issueType = Error, category = Compatibility,
      description = ''INVISIBLE column attribute removed - not supported in MariaDB 10.3. Column will be visible.'',
      originalText = Some (m_match m), convertedText = Some (invisible_replacement m),
      autoFixed = True\<rparr>"

lemma re_invisible_groups:
  "always_sets re_invisible 1" "always_sets re_invisible 2" "distinct (groups_of re_invisible)"
  by (simp_all add: re_invisible_def sp_plus_def Plus_def)

lemma includes_suffix: "js_includes t p \<Longrightarrow> js_includes (s @ t) p"
  by (induction s) auto

lemma invisible_word: "js_includes (invisible_replacement m) ''INVISIBLE''"
proof -
  have "js_includes '' -- INVISIBLE not supported in MariaDB 10.3'' ''INVISIBLE''" by code_simp
  then show ?thesis unfolding invisible_replacement_def by (intro includes_suffix)
qed

text \<open>
  Claim C6, as the code has it.  The rule for invisible columns matches a back-quoted
  column name, white space, a definition without comma or closing parenthesis, white space
  and the word \<^verbatim>\<open>INVISIBLE\<close>.  For every text it records exactly one issue of type error for
  each match and replaces the match by the name, a space, the definition and the comment
  \<^verbatim>\<open>-- INVISIBLE not supported in MariaDB 10.3\<close>: the attribute becomes a comment, and the word
  \<^verbatim>\<open>INVISIBLE\<close> is still in the text that replaces the column.
\<close>

theorem invisible_commented:
  "\<exists>st'. replace_rule gi re_invisible (cb_invisible sqlContent) st = Inr st' \<and>
         convertedSQL st' =
           rebuild (convertedSQL st) 0 (js_matches gi re_invisible (convertedSQL st))
             (map invisible_replacement (js_matches gi re_invisible (convertedSQL st))) \<and>
         issues st' = issues st @ map (invisible_issue sqlContent) (js_matches gi re_invisible (convertedSQL st)) \<and>
         map issueType (map (invisible_issue sqlContent) (js_matches gi re_invisible (convertedSQL st))) =
           replicate (length (js_matches gi re_invisible (convertedSQL st))) Error \<and>
         list_all (\<lambda>r. js_includes r ''INVISIBLE'')
           (map invisible_replacement (js_matches gi re_invisible (convertedSQL st)))"
proof -
  have "\<exists>st'. replace_rule gi re_invisible (cb_invisible sqlContent) st = Inr st' \<and>
         convertedSQL st' =
           rebuild (convertedSQL st) 0 (js_matches gi re_invisible (convertedSQL st))
             (map invisible_replacement (js_matches gi re_invisible (convertedSQL st))) \<and>
         issues st' = issues st @ map (invisible_issue sqlContent) (js_matches gi re_invisible (convertedSQL st))"
  proof (rule replace_rule_pure)
    fix m :: match_args and a :: acc
    assume "m \<in> set (js_matches gi re_invisible (convertedSQL st))"
    then have mo: "match_of gi re_invisible (convertedSQL st) m" by (rule js_matches_match_of)
    from match_of_groups[OF mo re_invisible_groups(1,3)] obtain s1 where "grp m 1 = Some s1" by blast
    moreover from match_of_groups[OF mo re_invisible_groups(2,3)] obtain s2 where "grp m 2 = Some s2" by blast
    ultimately show "cb_invisible sqlContent m a = Inr (invisible_replacement m, addIssue a (invisible_issue sqlContent m))"
      by (simp add: cb_invisible_def Let_def invisible_replacement_def invisible_issue_def js_str_def js_or_empty_def)
  qed
  moreover have "map issueType (map (invisible_issue sqlContent) ms) = replicate (length ms) Error" for ms
    by (induction ms) (simp_all add: invisible_issue_def)
  moreover have "list_all (\<lambda>r. js_includes r ''INVISIBLE'') (map invisible_replacement ms)" for ms
    by (induction ms) (simp_all add: invisible_word)
  ultimately show ?thesis by blast
qed

definition invisible_sql :: string where
  "invisible_sql = ''CREATE TABLE t ('' @ [bq] @ ''c'' @ [bq] @ '' int INVISIBLE);''"

definition paren_sql :: string where
  "paren_sql = ''CREATE TABLE t ('' @ [bq] @ ''c'' @ [bq] @ '' varchar(10) INVISIBLE);''"

definition invisible_result :: ConversionResult where
  "invisible_result =
     \<lparr>convertedSQL = header @ ''CREATE TABLE t ('' @ [bq] @ ''c'' @ [bq] @
                      '' int -- INVISIBLE not supported in MariaDB 10.3);'',
      issues =
        [\<lparr>lineNumber = Some 1, issueType = Error, category = Compatibility,
          description = ''INVISIBLE column attribute removed - not supported in MariaDB 10.3. Column will be visible.'',
          originalText = Some ([bq] @ ''c'' @ [bq] @ '' int INVISIBLE''),
          convertedText = Some ([bq] @ ''c'' @ [bq] @ '' int -- INVISIBLE not supported in MariaDB 10.3''),
          autoFixed = True\<rparr>,
         header_issue],
      stats = \<lparr>totalIssues = 2, autoFixedCount = 2, warningsCount = 0, errorsCount = 1,
               optimizationsCount = 1\<rparr>\<rparr>"

lemma convert_invisible: "convertMySQLToMariaDB invisible_sql = Inr invisible_result"
  by code_simp

lemma invisible_result_word: "js_includes (convertedSQL invisible_result) ''INVISIBLE''"
  by code_simp

text \<open>
  The claim as stated fails on a one-column table: the output for the column still holds
  the word.
\<close>

theorem invisible_word_remains:
  "convertMySQLToMariaDB invisible_sql = Inr invisible_result \<and>
   convertedSQL invisible_result =
     header @ ''CREATE TABLE t ('' @ [bq] @ ''c'' @ [bq] @ '' int -- INVISIBLE not supported in MariaDB 10.3);'' \<and>
   js_includes (convertedSQL invisible_result) ''INVISIBLE''"
  using convert_invisible invisible_result_word by (simp add: invisible_result_def)

lemma invisible_sql_facts:
  "rebuild invisible_sql 0 (js_matches gi re_invisible invisible_sql)
     (map invisible_replacement (js_matches gi re_invisible invisible_sql)) =
   ''CREATE TABLE t ('' @ [bq] @ ''c'' @ [bq] @ '' int -- INVISIBLE not supported in MariaDB 10.3);''"
  "length (js_matches gi re_invisible invisible_sql) = 1"
  by code_simp+

theorem invisible_commented_witness:
  "\<exists>st'. replace_rule gi re_invisible (cb_invisible invisible_sql) (initial invisible_sql) = Inr st' \<and>
         convertedSQL st' =
           ''CREATE TABLE t ('' @ [bq] @ ''c'' @ [bq] @ '' int -- INVISIBLE not supported in MariaDB 10.3);'' \<and>
         map issueType (issues st') = [Error]"
  using invisible_commented[of invisible_sql "initial invisible_sql"] invisible_sql_facts
  by (auto simp: initial_def)

text \<open>
  A column whose type has a parenthesis is not matched by the rule (the definition may not
  hold a closing parenthesis): the attribute stays and no issue is recorded.
\<close>

lemma invisible_paren_type_missed: "js_matches gi re_invisible paren_sql = []"
  by code_simp

subsection \<open>The collation step finds the whole tokens\<close>

lemma to_upper_word [simp]: "is_word (to_upper c) = is_word c"
  by (cases c) (auto simp: is_word_def)

lemma char_eq_word: "char_eq fl a c \<Longrightarrow> is_word a = is_word c"
  by (metis char_eq_def to_upper_word)

lemma match_lit_result:
  "lit_prefix fl w rest \<Longrightarrow>
   match_lit fl w rest prev =
     Some (drop (length w) rest, if w = [] then prev else Some (rest ! (length w - 1)))"
proof (induction fl w rest prev rule: match_lit.induct)
  case (3 fl a as c cs prev)
  then show ?case by (cases as) auto
qed auto

lemma lit_prefix_word:
  "lit_prefix fl w rest \<Longrightarrow> list_all is_word w \<Longrightarrow> i < length w \<Longrightarrow> is_word (rest ! i)"
proof (induction w arbitrary: rest i)
  case Nil
  then show ?case by simp
next
  case (Cons a as)
  then obtain c cs where r: "rest = c # cs" by (cases rest) auto
  with Cons.prems have "char_eq fl a c" "lit_prefix fl as cs" "is_word a" "list_all is_word as" by auto
  then show ?case using Cons.IH[of cs "i - 1"] Cons.prems(3) r char_eq_word[of fl a c]
    by (cases i) auto
qed

definition tok :: "string \<Rightarrow> char option \<Rightarrow> string \<Rightarrow> bool" where
  "tok k prev rest =
     (\<not> word_before prev \<and> lit_prefix gi k rest \<and> \<not> word_after (drop (length k) rest))"

lemma exec_collation:
  assumes "k \<noteq> []" "list_all is_word k"
  shows "exec_at gi (re_collation k) caps rest prev = (if tok k prev rest then Some (length k, caps) else None)"
proof (cases "lit_prefix gi k rest")
  case False
  then have "match_lit gi k rest prev = None" by (simp add: match_lit_None)
  then show ?thesis using False
    by (simp add: exec_at_def re_collation_def run.simps(5) run.simps(11) run.simps(1) tok_def)
next
  case True
  from True have le: "length k \<le> length rest" by (simp add: lit_prefix_def)
  have ml: "match_lit gi k rest prev = Some (drop (length k) rest, Some (rest ! (length k - 1)))"
    using match_lit_result[OF True] assms(1) by simp
  have w0: "word_after rest"
    using lit_prefix_word[OF True assms(2), of 0] assms(1) le by (cases rest) (auto simp: word_after_def)
  have w1: "word_before (Some (rest ! (length k - 1)))"
    using lit_prefix_word[OF True assms(2), of "length k - 1"] assms(1) by (simp add: word_before_def)
  show ?thesis using True ml w0 w1 le
    by (simp add: exec_at_def re_collation_def run.simps(5) run.simps(11) run.simps(1) tok_def)
qed


definition token_at :: "string \<Rightarrow> string \<Rightarrow> nat \<Rightarrow> bool" where
  "token_at k str p = (p \<le> length str \<and> tok k (prev_at str p) (drop p str))"

definition token_match :: "string \<Rightarrow> captures \<Rightarrow> string \<Rightarrow> nat \<Rightarrow> match_args" where
  "token_match k caps str p =
     \<lparr>m_match = take (length k) (drop p str), m_groups = caps, m_offset = p, m_str = str\<rparr>"

lemma no_token_inside:
  assumes "k \<noteq> []" "list_all is_word k" "lit_prefix gi k (drop off str)" "off < p" "p < off + length k"
  shows "\<not> token_at k str p"
proof -
  from assms(3) have le: "length k \<le> length (drop off str)" by (simp add: lit_prefix_def)
  have "is_word (drop off str ! (p - 1 - off))"
    using lit_prefix_word[OF assms(3) assms(2), of "p - 1 - off"] assms(4,5) by simp
  moreover have "drop off str ! (p - 1 - off) = str ! (p - 1)"
    using assms(4,5) le by (simp add: nth_drop)
  ultimately have "word_before (prev_at str p)"
    using assms(4) by (simp add: prev_at_def word_before_def)
  then show ?thesis by (simp add: token_at_def tok_def)
qed

lemma filter_token_skip:
  assumes "k \<noteq> []" "list_all is_word k" "lit_prefix gi k (drop off str)" "off + length k \<le> n"
  shows "filter (token_at k str) [Suc off..<n] = filter (token_at k str) [off + length k..<n]"
proof -
  have le: "Suc off \<le> off + length k" using assms(1) by (cases k) auto
  have "[Suc off..<n] = [Suc off..<off + length k] @ [off + length k..<n]"
    using le assms(4) by (metis upt_add_eq_append le_Suc_ex)
  moreover have "filter (token_at k str) [Suc off..<off + length k] = []"
    using no_token_inside[OF assms(1,2,3)] by (auto simp: filter_empty_conv)
  ultimately show ?thesis by simp
qed

lemma matches_collation:
  assumes "k \<noteq> []" "list_all is_word k"
  shows "at_pos str off prev rest \<Longrightarrow>
         matches_from gi (re_collation k) caps str off prev rest =
           map (token_match k caps str) (filter (token_at k str) [off..<Suc (length str)])"
proof (induction gi "re_collation k" caps str off prev rest rule: matches_from.induct)
  case (1 caps str off prev rest)
  note pos = "1.prems"
  from pos have rest: "rest = drop off str" and prev: "prev = prev_at str off" and le: "off \<le> length str"
    by (simp_all add: at_pos_def)
  have ex: "exec_at gi (re_collation k) caps rest prev = (if tok k prev rest then Some (length k, caps) else None)"
    by (rule exec_collation[OF assms])
  have upt: "[off..<Suc (length str)] = off # [Suc off..<Suc (length str)]"
    using le by (simp add: upt_conv_Cons)
  show ?case
  proof (cases "tok k prev rest")
    case False
    then have none: "exec_at gi (re_collation k) caps rest prev = None" using ex by simp
    from False have nt: "\<not> token_at k str off" using rest prev by (simp add: token_at_def)
    show ?thesis
    proof (cases rest)
      case Nil
      then have "off = length str" using rest le by simp
      then show ?thesis using none Nil nt
        by (subst matches_from.simps) simp
    next
      case (Cons c cs)
      from pos Cons have p: "at_pos str (Suc off) (Some c) cs" by (auto intro: at_pos_step)
      show ?thesis using "1.hyps"(1)[OF none Cons p] none Cons nt upt
        by (subst matches_from.simps) simp
    qed
  next
    case True
    then have some: "exec_at gi (re_collation k) caps rest prev = Some (length k, caps)" using ex by simp
    from True have t: "token_at k str off" using rest prev le by (simp add: token_at_def)
    from True have lp: "lit_prefix gi k (drop off str)" using rest by (simp add: tok_def)
    from exec_at_le[OF some] have kle: "length k \<le> length rest" .
    have k0: "length k \<noteq> 0" using assms(1) by simp
    from at_pos_jump[OF pos kle k0]
    have p: "at_pos str (off + length k) (Some (rest ! (length k - 1))) (drop (length k) rest)" .
    have n: "off + length k \<le> Suc (length str)" using kle rest le by simp
    show ?thesis
      using "1.hyps"(3)[OF some refl k0 p] some k0 t upt filter_token_skip[OF assms lp n] rest
      by (subst matches_from.simps) (simp add: token_match_def)
  qed
qed

lemma js_matches_collation:
  assumes "k \<noteq> []" "list_all is_word k"
  shows "js_matches gi (re_collation k) str =
           map (token_match k (no_captures (re_collation k)) str)
               (filter (token_at k str) [0..<Suc (length str)])"
  unfolding js_matches_def by (rule matches_collation[OF assms at_pos_start])

definition whole_token :: "string \<Rightarrow> string \<Rightarrow> nat \<Rightarrow> bool" where
  "whole_token k str p =
     (p + length k \<le> length str \<and>
      js_toUpperCase (take (length k) (drop p str)) = js_toUpperCase k \<and>
      (p = 0 \<or> \<not> is_word (str ! (p - 1))) \<and>
      (p + length k = length str \<or> \<not> is_word (str ! (p + length k))))"

lemma gi_ci: "gi = ci"
  by (simp add: gi_def ci_def)

lemma word_after_drop: "word_after (drop n s) = (n < length s \<and> is_word (s ! n))"
proof (cases "n < length s")
  case True
  then have "drop n s = s ! n # drop (Suc n) s" by (simp add: Cons_nth_drop_Suc)
  then show ?thesis using True by (simp add: word_after_def)
next
  case False
  then show ?thesis by (simp add: word_after_def)
qed

lemma word_before_prev_at: "word_before (prev_at str p) = (p \<noteq> 0 \<and> is_word (str ! (p - 1)))"
  by (simp add: word_before_def prev_at_def)

lemma lit_prefix_upper:
  "lit_prefix gi k s = (length k \<le> length s \<and> js_toUpperCase (take (length k) s) = js_toUpperCase k)"
proof (cases "length k \<le> length s")
  case True
  then show ?thesis
    by (simp add: gi_ci lit_prefix_ci js_startsWith_def js_toUpperCase_def take_map)
next
  case False
  then show ?thesis by (simp add: lit_prefix_def)
qed

lemma token_at_whole: "token_at k str p = whole_token k str p"
proof -
  have 1: "word_after (drop (length k) (drop p str)) = (p + length k < length str \<and> is_word (str ! (p + length k)))"
    using word_after_drop[of "p + length k" str] by (simp add: add.commute)
  have 2: "(length k \<le> length (drop p str) \<and> p \<le> length str) = (p + length k \<le> length str)"
    by auto
  show ?thesis
    unfolding token_at_def tok_def whole_token_def lit_prefix_upper 1 word_before_prev_at
    using 2 by auto
qed

definition collation_issue :: "string \<Rightarrow> string \<Rightarrow> match_args \<Rightarrow> ConversionIssue" where
  "collation_issue sqlContent mariadbCollation m =
     \<lparr>lineNumber = Some (getLineNumber sqlContent (m_match m)),
      issueType = Warning, category = Compatibility,
      description = ''Replaced MySQL 8.0+ collation '' @ m_match m @
                    '' with MariaDB 10.3 compatible '' @ mariadbCollation,
      originalText = Some (m_match m), convertedText = Some mariadbCollation,
      autoFixed = True\<rparr>"

lemma collation_keys: "list_all (\<lambda>(k, v). k \<noteq> [] \<and> list_all is_word k) mysqlCollationMap"
  by code_simp

lemma collation_entries:
  "map_of mysqlCollationMap ''utf8mb4_0900_as_cs'' = Some ''utf8mb4_bin''"
  "map_of mysqlCollationMap ''utf8mb4_0900_ai_ci'' = Some ''utf8mb4_unicode_ci''"
  by code_simp+

text \<open>
  The collation step on its own.  For every entry of the collation map, in particular
  \<^verbatim>\<open>utf8mb4_0900_as_cs\<close> \<open>\<mapsto>\<close> \<^verbatim>\<open>utf8mb4_bin\<close> and
  \<^verbatim>\<open>utf8mb4_0900_ai_ci\<close> \<open>\<mapsto>\<close> \<^verbatim>\<open>utf8mb4_unicode_ci\<close>, and for every text, the step of the
  entry is one of the rules of the conversion and does this to the working copy that
  reaches it: its matches are exactly at the positions where the name stands as a whole
  token (the name up to the case of letters, no word character before it and none after it,
  \<open>whole_token\<close>), each match is the text of that token and is replaced by the MariaDB
  collation, and each replacement is recorded as one issue of type warning and category
  compatibility, marked fixed, whose converted text is the MariaDB collation.  A longer
  identifier that holds the name is not a whole token, so nothing is replaced in it.
\<close>

theorem collation_whole_tokens:
  assumes "(k, v) \<in> set mysqlCollationMap"
  shows "\<exists>st'. rule_collation sqlContent (k, v) st = Inr st' \<and>
           convertedSQL st' =
             rebuild (convertedSQL st) 0 (js_matches gi (re_collation k) (convertedSQL st))
               (map (\<lambda>m. v) (js_matches gi (re_collation k) (convertedSQL st))) \<and>
           issues st' =
             issues st @ map (collation_issue sqlContent v) (js_matches gi (re_collation k) (convertedSQL st)) \<and>
           map m_offset (js_matches gi (re_collation k) (convertedSQL st)) =
             filter (whole_token k (convertedSQL st)) [0..<Suc (length (convertedSQL st))] \<and>
           list_all (\<lambda>m. m_match m = take (length k) (drop (m_offset m) (convertedSQL st)))
             (js_matches gi (re_collation k) (convertedSQL st)) \<and>
           list_all (\<lambda>i. issueType i = Warning \<and> category i = Compatibility \<and> autoFixed i \<and>
                         convertedText i = Some v)
             (map (collation_issue sqlContent v) (js_matches gi (re_collation k) (convertedSQL st))) \<and>
           rule_collation sqlContent (k, v) \<in> set (rules sqlContent) \<and>
           map_of mysqlCollationMap ''utf8mb4_0900_as_cs'' = Some ''utf8mb4_bin'' \<and>
           map_of mysqlCollationMap ''utf8mb4_0900_ai_ci'' = Some ''utf8mb4_unicode_ci''"
proof -
  let ?str = "convertedSQL st"
  let ?ms = "js_matches gi (re_collation k) ?str"
  from assms collation_keys have k: "k \<noteq> []" "list_all is_word k"
    by (auto simp: list_all_iff)
  have ms: "?ms = map (token_match k (no_captures (re_collation k)) ?str)
                      (filter (token_at k ?str) [0..<Suc (length ?str)])"
    by (rule js_matches_collation[OF k])
  have 1: "\<exists>st'. rule_collation sqlContent (k, v) st = Inr st' \<and>
           convertedSQL st' = rebuild ?str 0 ?ms (map (\<lambda>m. v) ?ms) \<and>
           issues st' = issues st @ map (collation_issue sqlContent v) ?ms"
    unfolding rule_collation_def fst_conv snd_conv
    by (rule replace_rule_pure) (simp add: cb_collation_def collation_issue_def)
  have 2: "map m_offset ?ms = filter (whole_token k ?str) [0..<Suc (length ?str)]"
    unfolding ms by (simp add: o_def token_match_def token_at_whole[abs_def])
  have 3: "list_all (\<lambda>m. m_match m = take (length k) (drop (m_offset m) ?str)) ?ms"
    unfolding ms by (simp add: list_all_iff token_match_def)
  have 4: "list_all (\<lambda>i. issueType i = Warning \<and> category i = Compatibility \<and> autoFixed i \<and>
                         convertedText i = Some v) (map (collation_issue sqlContent v) ?ms)"
    by (simp add: list_all_iff collation_issue_def)
  have 5: "rule_collation sqlContent (k, v) \<in> set (rules sqlContent)"
    using assms by (simp add: rules_def)
  from 1 2 3 4 5 collation_entries show ?thesis by blast
qed


definition collate_sql :: string where
  "collate_sql = ''a COLLATE utf8mb4_0900_as_cs, my_utf8mb4_0900_as_cs UTF8MB4_0900_AS_CS''"

lemma collate_sql_facts:
  "(''utf8mb4_0900_as_cs'', ''utf8mb4_bin'') \<in> set mysqlCollationMap"
  "rebuild collate_sql 0 (js_matches gi (re_collation ''utf8mb4_0900_as_cs'') collate_sql)
     (map (\<lambda>m. ''utf8mb4_bin'') (js_matches gi (re_collation ''utf8mb4_0900_as_cs'') collate_sql)) =
   ''a COLLATE utf8mb4_bin, my_utf8mb4_0900_as_cs utf8mb4_bin''"
  "map originalText (map (collation_issue collate_sql ''utf8mb4_bin'')
     (js_matches gi (re_collation ''utf8mb4_0900_as_cs'') collate_sql)) =
   [Some ''utf8mb4_0900_as_cs'', Some ''UTF8MB4_0900_AS_CS'']"
  "filter (whole_token ''utf8mb4_0900_as_cs'' collate_sql) [0..<Suc (length collate_sql)] = [10, 52]"
  by code_simp+

definition collate_result :: ConversionResult where
  "collate_result =
     \<lparr>convertedSQL = header @ ''COLLATE utf8mb4_bin'',
      issues =
        [\<lparr>lineNumber = Some 1, issueType = Warning, category = Compatibility,
          description = ''Replaced MySQL 8.0+ collation utf8mb4_0900_as_cs with MariaDB 10.3 compatible utf8mb4_bin'',
          originalText = Some ''utf8mb4_0900_as_cs'', convertedText = Some ''utf8mb4_bin'',
          autoFixed = True\<rparr>,
         header_issue],
      stats = \<lparr>totalIssues = 2, autoFixedCount = 2, warningsCount = 1, errorsCount = 0,
               optimizationsCount = 1\<rparr>\<rparr>"

lemma convert_collate: "convertMySQLToMariaDB ''COLLATE utf8mb4_0900_as_cs'' = Inr collate_result"
  by code_simp

theorem collation_whole_tokens_witness:
  "(''utf8mb4_0900_as_cs'', ''utf8mb4_bin'') \<in> set mysqlCollationMap \<and>
   (\<exists>st'. rule_collation collate_sql (''utf8mb4_0900_as_cs'', ''utf8mb4_bin'') (initial collate_sql) = Inr st' \<and>
          convertedSQL st' = ''a COLLATE utf8mb4_bin, my_utf8mb4_0900_as_cs utf8mb4_bin'' \<and>
          map originalText (issues st') = [Some ''utf8mb4_0900_as_cs'', Some ''UTF8MB4_0900_AS_CS'']) \<and>
   map m_offset (js_matches gi (re_collation ''utf8mb4_0900_as_cs'') collate_sql) = [10, 52] \<and>
   convertMySQLToMariaDB ''COLLATE utf8mb4_0900_as_cs'' = Inr collate_result \<and>
   convertedSQL collate_result = header @ ''COLLATE utf8mb4_bin''"
  using collation_whole_tokens[of "''utf8mb4_0900_as_cs''" "''utf8mb4_bin''" collate_sql "initial collate_sql"]
    collate_sql_facts convert_collate
  by (auto simp: initial_def collate_result_def)

definition text_column_sql :: string where
  "text_column_sql = ''CREATE TABLE t (a text COLLATE utf8mb4_0900_as_cs);''"

definition text_column_result :: ConversionResult where
  "text_column_result =
     \<lparr>convertedSQL = header @ ''CREATE TABLE t (a text CHARACTER SET utf8mb4 COLLATE utf8mb4_general_ci);'',
      issues =
        [\<lparr>lineNumber = Some 1, issueType = Warning, category = Compatibility,
          description = ''Replaced MySQL 8.0+ collation utf8mb4_0900_as_cs with MariaDB 10.3 compatible utf8mb4_bin'',
          originalText = Some ''utf8mb4_0900_as_cs'', convertedText = Some ''utf8mb4_bin'',
          autoFixed = True\<rparr>,
         \<lparr>lineNumber = Some 1, issueType = Info, category = Optimization,
          description = ''Ensured text field uses utf8mb4 for complete data support (all characters, colors, formatting)'',
          originalText = Some ''text COLLATE utf8mb4_bin'',
          convertedText = Some ''text CHARACTER SET utf8mb4 COLLATE utf8mb4_general_ci'',
          autoFixed = True\<rparr>,
         header_issue],
      stats = \<lparr>totalIssues = 3, autoFixedCount = 3, warningsCount = 1, errorsCount = 0,
               optimizationsCount = 2\<rparr>\<rparr>"

lemma convert_text_column: "convertMySQLToMariaDB text_column_sql = Inr text_column_result"
  by code_simp

lemma text_column_facts:
  "filter (whole_token ''utf8mb4_0900_as_cs'' text_column_sql) [0..<Suc (length text_column_sql)] = [31]"
  "\<not> js_includes (convertedSQL text_column_result) ''utf8mb4_bin''"
  "map_of mysqlCollationMap ''utf8mb4_0900_as_cs'' = Some ''utf8mb4_bin''"
  by code_simp+

text \<open>
  Claim C1.  The claim says that every whole-token occurrence of \<^verbatim>\<open>utf8mb4_0900_as_cs\<close> is
  replaced by \<^verbatim>\<open>utf8mb4_bin\<close> in \<^verbatim>\<open>convertedSQL\<close>, the case-sensitive collation staying case
  sensitive.  The collation step does this to its working copy (theorem
  \<open>collation_whole_tokens\<close>), but the text returned does not always keep it.  On
  \<^verbatim>\<open>CREATE TABLE t (a text COLLATE utf8mb4_0900_as_cs);\<close> the collation step writes
  \<^verbatim>\<open>utf8mb4_bin\<close> and records the substitution; the later rule for text columns, whose
  pattern takes a following \<^verbatim>\<open>COLLATE\<close> clause as its third group and whose replacement is
  \<^verbatim>\<open>text CHARACTER SET utf8mb4 COLLATE utf8mb4_general_ci\<close> whatever that group holds, matches
  \<^verbatim>\<open>text COLLATE utf8mb4_bin\<close> and drops the collation.  The text returned has no
  \<^verbatim>\<open>utf8mb4_bin\<close>: the column has become case insensitive, while the first issue still
  reports \<^verbatim>\<open>utf8mb4_bin\<close> as the converted text.
\<close>

theorem text_column_collation_lost:
  "convertMySQLToMariaDB text_column_sql = Inr text_column_result \<and>
   filter (whole_token ''utf8mb4_0900_as_cs'' text_column_sql) [0..<Suc (length text_column_sql)] = [31] \<and>
   map_of mysqlCollationMap ''utf8mb4_0900_as_cs'' = Some ''utf8mb4_bin'' \<and>
   convertedSQL text_column_result =
     header @ ''CREATE TABLE t (a text CHARACTER SET utf8mb4 COLLATE utf8mb4_general_ci);'' \<and>
   \<not> js_includes (convertedSQL text_column_result) ''utf8mb4_bin'' \<and>
   map originalText (issues text_column_result) =
     [Some ''utf8mb4_0900_as_cs'', Some ''text COLLATE utf8mb4_bin'', Some ''-- File beginning''] \<and>
   map convertedText (issues text_column_result) =
     [Some ''utf8mb4_bin'', Some ''text CHARACTER SET utf8mb4 COLLATE utf8mb4_general_ci'',
      Some ''-- MariaDB header added'']"
  using convert_text_column text_column_facts by (simp add: text_column_result_def header_issue_def)

section \<open>Two runs in sequence\<close>

subsection \<open>Matching on a known beginning\<close>

text \<open>
  The matcher on a text of which only a beginning is known.  \<open>arun\<close> is \<open>run\<close> on the
  known part, and answers \<open>None\<close> as soon as the match would have to look at what comes
  after it: when it answers \<open>Some sts\<close>, the matcher on the whole text gives the same
  outcomes, whatever the text after the known part is (\<open>arun_sound\<close>).
\<close>

fun alit :: "flags \<Rightarrow> string \<Rightarrow> string \<Rightarrow> char option \<Rightarrow> (string \<times> char option) option option" where
  "alit fl [] known prev = Some (Some (known, prev))"
| "alit fl (a # as) [] prev = None"
| "alit fl (a # as) (c # cs) prev = (if char_eq fl a c then alit fl as cs (Some c) else Some None)"

definition ext :: "string \<Rightarrow> mstate \<Rightarrow> mstate" where
  "ext u st = (fst st @ u, snd st)"

function arun :: "flags \<Rightarrow> regex \<Rightarrow> mstate \<Rightarrow> mstate list option" where
  "arun fl (Lit s) (known, prev, caps) =
     (case alit fl s known prev of
        None \<Rightarrow> None
      | Some None \<Rightarrow> Some []
      | Some (Some (known', prev')) \<Rightarrow> Some [(known', prev', caps)])"
| "arun fl (Cls items) (known, prev, caps) =
     (case known of [] \<Rightarrow> None | c # cs \<Rightarrow> Some (if in_class fl items c then [(cs, Some c, caps)] else []))"
| "arun fl (NCls items) (known, prev, caps) =
     (case known of [] \<Rightarrow> None | c # cs \<Rightarrow> Some (if in_class fl items c then [] else [(cs, Some c, caps)]))"
| "arun fl Dot (known, prev, caps) =
     (case known of [] \<Rightarrow> None | c # cs \<Rightarrow> Some (if is_line_terminator c then [] else [(cs, Some c, caps)]))"
| "arun fl (Seq a b) st =
     (case arun fl a st of
        None \<Rightarrow> None
      | Some sts \<Rightarrow> map_option concat (those (map (arun fl b) sts)))"
| "arun fl (Alt a b) st =
     (case arun fl a st of
        None \<Rightarrow> None
      | Some xs \<Rightarrow> (case arun fl b st of None \<Rightarrow> None | Some ys \<Rightarrow> Some (xs @ ys)))"
| "arun fl (Star a) (known, prev, caps) =
     (case arun fl a (known, prev, clear_caps (groups_of a) caps) of
        None \<Rightarrow> None
      | Some sts \<Rightarrow>
          map_option (\<lambda>rs. concat rs @ [(known, prev, caps)])
            (those (map (\<lambda>st'. if length (fst st') < length known then arun fl (Star a) st' else Some []) sts)))"
| "arun fl (LStar a) (known, prev, caps) =
     (case arun fl a (known, prev, clear_caps (groups_of a) caps) of
        None \<Rightarrow> None
      | Some sts \<Rightarrow>
          map_option (\<lambda>rs. (known, prev, caps) # concat rs)
            (those (map (\<lambda>st'. if length (fst st') < length known then arun fl (LStar a) st' else Some []) sts)))"
| "arun fl (Opt a) (known, prev, caps) =
     map_option (\<lambda>sts. filter (\<lambda>st'. length (fst st') < length known) sts @ [(known, prev, caps)])
       (arun fl a (known, prev, clear_caps (groups_of a) caps))"
| "arun fl (Group n a) (known, prev, caps) =
     map_option
       (map (\<lambda>(known', prev', caps'). (known', prev', caps'[n := Some (take (length known - length known') known)])))
       (arun fl a (known, prev, caps))"
| "arun fl WordB (known, prev, caps) =
     (case known of [] \<Rightarrow> None
      | c # _ \<Rightarrow> Some (if word_before prev \<noteq> is_word c then [(known, prev, caps)] else []))"
| "arun fl Bol (known, prev, caps) =
     Some (case prev of None \<Rightarrow> [(known, prev, caps)]
           | Some c \<Rightarrow> if multiline fl \<and> is_line_terminator c then [(known, prev, caps)] else [])"
| "arun fl Eol (known, prev, caps) =
     (case known of [] \<Rightarrow> None
      | c # _ \<Rightarrow> Some (if multiline fl \<and> is_line_terminator c then [(known, prev, caps)] else []))"
| "arun fl (NLook a) (known, prev, caps) =
     map_option (\<lambda>sts. if sts = [] then [(known, prev, caps)] else []) (arun fl a (known, prev, caps))"
  by pat_completeness auto
termination
  by (relation "measures [\<lambda>(fl, r, st). size r, \<lambda>(fl, r, st). length (fst st)]") auto


declare arun.simps [simp del]

lemma alit_sound:
  "alit fl s known prev = Some r \<Longrightarrow>
   match_lit fl s (known @ u) prev = map_option (\<lambda>(k, p). (k @ u, p)) r"
  by (induction fl s known prev rule: alit.induct) (auto split: if_splits)

lemma map_those:
  assumes "those (map f xs) = Some yss"
    and "\<And>x ys. x \<in> set xs \<Longrightarrow> f x = Some ys \<Longrightarrow> g x = h ys"
  shows "map g xs = map h yss"
  using assms
proof (induction xs arbitrary: yss)
  case Nil
  then show ?case by simp
next
  case (Cons x xs)
  from Cons.prems(1) obtain y ys where y: "f x = Some y" and ys: "those (map f xs) = Some ys"
    and yss: "yss = y # ys"
    by (auto split: option.splits)
  from Cons.IH[OF ys] Cons.prems(2) have "map g xs = map h ys" by simp
  moreover from Cons.prems(2)[of x y] y have "g x = h y" by simp
  ultimately show ?case using yss by simp
qed

lemma ext_simps [simp]: "ext u (known, prev, caps) = (known @ u, prev, caps)" "fst (ext u st) = fst st @ u"
  by (simp_all add: ext_def)

lemma arun_sound: "arun fl r st = Some sts \<Longrightarrow> run fl r (ext u st) = map (ext u) sts"
proof (induction fl r st arbitrary: sts rule: arun.induct)
  case (1 fl s known prev caps)
  then show ?case
    using alit_sound[of fl s known prev _ u]
    by (auto simp: arun.simps(1) run.simps(1) split: option.splits)
next
  case (2 fl items known prev caps)
  then show ?case by (auto simp: arun.simps(2) run.simps(2) split: list.splits)
next
  case (3 fl items known prev caps)
  then show ?case by (auto simp: arun.simps(3) run.simps(3) split: list.splits)
next
  case (4 fl known prev caps)
  then show ?case by (auto simp: arun.simps(4) run.simps(4) split: list.splits)
next
  case (5 fl a b st)
  from "5.prems" obtain xs yss where xs: "arun fl a st = Some xs"
    and yss: "those (map (arun fl b) xs) = Some yss" and sts: "sts = concat yss"
    by (auto simp: arun.simps(5) split: option.splits)
  have a: "run fl a (ext u st) = map (ext u) xs" by (rule "5.IH"(1)[OF xs])
  have "map (\<lambda>x. run fl b (ext u x)) xs = map (map (ext u)) yss"
    by (rule map_those[OF yss]) (rule "5.IH"(2)[OF xs])
  then show ?case using a sts by (simp add: run.simps(5) o_def map_concat)
next
  case (6 fl a b st)
  then show ?case by (auto simp: arun.simps(6) run.simps(6) split: option.splits)
next
  case (7 fl a known prev caps)
  let ?f = "\<lambda>st'. if length (fst st') < length known then arun fl (Star a) st' else Some []"
  let ?g = "\<lambda>st'. if length (fst (ext u st')) < length (known @ u) then run fl (Star a) (ext u st') else []"
  from "7.prems" obtain xs yss where xs: "arun fl a (known, prev, clear_caps (groups_of a) caps) = Some xs"
    and yss: "those (map ?f xs) = Some yss" and sts: "sts = concat yss @ [(known, prev, caps)]"
    by (auto simp: arun.simps(7) split: option.splits)
  have a: "run fl a (known @ u, prev, clear_caps (groups_of a) caps) = map (ext u) xs"
    using "7.IH"(1)[OF xs] by simp
  have "map ?g xs = map (map (ext u)) yss"
  proof (rule map_those[OF yss])
    fix x ys
    assume "x \<in> set xs" "?f x = Some ys"
    then show "?g x = map (ext u) ys"
      using "7.IH"(2)[OF xs, of x ys] by (auto split: if_splits)
  qed
  then show ?case unfolding ext_simps(1) using a sts by (subst run.simps(7)) (simp add: o_def map_concat)
next
  case (8 fl a known prev caps)
  let ?f = "\<lambda>st'. if length (fst st') < length known then arun fl (LStar a) st' else Some []"
  let ?g = "\<lambda>st'. if length (fst (ext u st')) < length (known @ u) then run fl (LStar a) (ext u st') else []"
  from "8.prems" obtain xs yss where xs: "arun fl a (known, prev, clear_caps (groups_of a) caps) = Some xs"
    and yss: "those (map ?f xs) = Some yss" and sts: "sts = (known, prev, caps) # concat yss"
    by (auto simp: arun.simps(8) split: option.splits)
  have a: "run fl a (known @ u, prev, clear_caps (groups_of a) caps) = map (ext u) xs"
    using "8.IH"(1)[OF xs] by simp
  have "map ?g xs = map (map (ext u)) yss"
  proof (rule map_those[OF yss])
    fix x ys
    assume "x \<in> set xs" "?f x = Some ys"
    then show "?g x = map (ext u) ys"
      using "8.IH"(2)[OF xs, of x ys] by (auto split: if_splits)
  qed
  then show ?case unfolding ext_simps(1) using a sts by (subst run.simps(8)) (simp add: o_def map_concat)
next
  case (9 fl a known prev caps)
  from "9.prems" obtain xs where xs: "arun fl a (known, prev, clear_caps (groups_of a) caps) = Some xs"
    and sts: "sts = filter (\<lambda>st'. length (fst st') < length known) xs @ [(known, prev, caps)]"
    by (auto simp: arun.simps(9))
  have a: "run fl a (known @ u, prev, clear_caps (groups_of a) caps) = map (ext u) xs"
    using "9.IH"[OF xs] by simp
  show ?case using a sts by (simp add: run.simps(9) filter_map o_def)
next
  case (10 fl n a known prev caps)
  from "10.prems" obtain xs where xs: "arun fl a (known, prev, caps) = Some xs"
    and sts: "sts = map (\<lambda>(known', prev', caps'). (known', prev', caps'[n := Some (take (length known - length known') known)])) xs"
    by (auto simp: arun.simps(10))
  have a: "run fl a (known @ u, prev, caps) = map (ext u) xs"
    using "10.IH"[OF xs] by simp
  show ?case using a sts by (simp add: run.simps(10) o_def ext_def case_prod_beta)
next
  case (11 fl known prev caps)
  then show ?case by (auto simp: arun.simps(11) run.simps(11) word_after_def split: list.splits)
next
  case (12 fl known prev caps)
  then show ?case by (auto simp: arun.simps(12) run.simps(12) split: option.splits)
next
  case (13 fl known prev caps)
  then show ?case by (auto simp: arun.simps(13) run.simps(13) split: list.splits)
next
  case (14 fl a known prev caps)
  from "14.prems" obtain xs where xs: "arun fl a (known, prev, caps) = Some xs"
    and sts: "sts = (if xs = [] then [(known, prev, caps)] else [])"
    by (auto simp: arun.simps(14))
  have a: "run fl a (known @ u, prev, caps) = map (ext u) xs"
    using "14.IH"[OF xs] by simp
  show ?case using a sts by (simp add: run.simps(14))
qed

subsection \<open>Rules that keep a beginning of the text\<close>

text \<open>
  \<open>dead fl rx P\<close>: no match of \<open>rx\<close> starts inside \<open>P\<close>, whatever follows \<open>P\<close>.  A global
  replace then copies \<open>P\<close>, and a rule built from it keeps \<open>P\<close> at the head of the working copy.
\<close>

fun dead_prefix :: "flags \<Rightarrow> regex \<Rightarrow> captures \<Rightarrow> char option \<Rightarrow> string \<Rightarrow> bool" where
  "dead_prefix fl rx caps0 prev [] = True"
| "dead_prefix fl rx caps0 prev (c # cs) =
     (arun fl rx (c # cs, prev, caps0) = Some [] \<and> dead_prefix fl rx caps0 (Some c) cs)"

definition dead :: "flags \<Rightarrow> regex \<Rightarrow> string \<Rightarrow> bool" where
  "dead fl rx P = dead_prefix fl rx (no_captures rx) None P"

definition last_prev :: "char option \<Rightarrow> string \<Rightarrow> char option" where
  "last_prev prev P = (if P = [] then prev else Some (last P))"

lemma arun_dead: "arun fl rx (known, prev, caps0) = Some [] \<Longrightarrow> exec_at fl rx caps0 (known @ u) prev = None"
  using arun_sound[of fl rx "(known, prev, caps0)" "[]" u] by (simp add: exec_at_def)

lemma replace_from_dead:
  "dead_prefix fl rx caps0 prev P \<Longrightarrow>
   replace_from fl rx caps0 cb str off prev (P @ u) a =
     (case replace_from fl rx caps0 cb str (off + length P) (last_prev prev P) u a of
        Inl e \<Rightarrow> Inl e
      | Inr (out, a') \<Rightarrow> Inr (P @ out, a'))"
proof (induction P arbitrary: off prev)
  case Nil
  then show ?case by (simp add: last_prev_def split: sum.splits)
next
  case (Cons c cs)
  from Cons.prems have ar: "arun fl rx (c # cs, prev, caps0) = Some []"
    and rest: "dead_prefix fl rx caps0 (Some c) cs"
    by simp_all
  have none: "exec_at fl rx caps0 (c # cs @ u) prev = None"
    using arun_dead[OF ar, of u] by simp
  have lp: "last_prev (Some c) cs = last_prev prev (c # cs)" by (simp add: last_prev_def)
  show ?case
    using none Cons.IH[OF rest, of "Suc off"] lp
    by (subst replace_from.simps) (simp split: sum.splits)
qed

lemma replace_str_from_dead:
  "dead_prefix fl rx caps0 prev P \<Longrightarrow>
   replace_str_from fl rx caps0 repl prev (P @ u) =
     P @ replace_str_from fl rx caps0 repl (last_prev prev P) u"
proof (induction P arbitrary: prev)
  case Nil
  then show ?case by (simp add: last_prev_def)
next
  case (Cons c cs)
  from Cons.prems have ar: "arun fl rx (c # cs, prev, caps0) = Some []"
    and rest: "dead_prefix fl rx caps0 (Some c) cs"
    by simp_all
  have none: "exec_at fl rx caps0 (c # cs @ u) prev = None"
    using arun_dead[OF ar, of u] by simp
  have lp: "last_prev (Some c) cs = last_prev prev (c # cs)" by (simp add: last_prev_def)
  show ?case
    using none Cons.IH[OF rest] lp
    by (subst replace_str_from.simps) simp
qed

definition keeps :: "string \<Rightarrow> rule \<Rightarrow> bool" where
  "keeps P r = (\<forall>st st' u. convertedSQL st = P @ u \<and> r st = Inr st' \<longrightarrow> (\<exists>u'. convertedSQL st' = P @ u'))"

lemma keeps_replace_rule: "dead fl rx P \<Longrightarrow> keeps P (replace_rule fl rx cb)"
  unfolding keeps_def dead_def replace_rule_def js_replace_def
  by (auto simp: replace_from_dead split: sum.splits prod.splits)

lemma keeps_lines_rule: "keeps P (lines_rule f sqlContent)"
  by (auto simp: keeps_def lines_rule_def Let_def split: prod.splits)

lemma keeps_whitespace:
  "dead g_only re_blank_lines P \<Longrightarrow> dead gm re_empty_line P \<Longrightarrow> keeps P rule_whitespace"
  unfolding keeps_def dead_def rule_whitespace_def js_replace_str_def
  by (auto simp: replace_str_from_dead)

lemma keeps_commit: "keeps P rule_commit"
  by (auto simp: keeps_def rule_commit_def Let_def split: if_splits prod.splits)

lemma keeps_header: "js_includes P ''SET NAMES utf8mb4'' \<Longrightarrow> keeps P rule_header"
  using js_includes_append[of P "''SET NAMES utf8mb4''"]
  by (auto simp: keeps_def rule_header_def split: if_splits prod.splits)

lemma apply_rules_keeps:
  "list_all (keeps P) rs \<Longrightarrow> convertedSQL st = P @ u \<Longrightarrow> apply_rules rs st = Inr st' \<Longrightarrow>
   \<exists>u'. convertedSQL st' = P @ u'"
proof (induction rs arbitrary: st u)
  case Nil
  then show ?case by simp
next
  case (Cons r rs)
  from Cons.prems(3) obtain st1 where r: "r st = Inr st1" and rest: "apply_rules rs st1 = Inr st'"
    by (auto split: sum.splits)
  from Cons.prems(1) have k: "keeps P r" and ks: "list_all (keeps P) rs" by simp_all
  from k Cons.prems(2) r obtain u1 where "convertedSQL st1 = P @ u1" unfolding keeps_def by blast
  from Cons.IH[OF ks this rest] show ?case .
qed

text \<open>
  The first three lines of the header, up to the end of the statement \<^verbatim>\<open>SET NAMES\<close>: no rule
  of the conversion has a match that starts in them.
\<close>

definition P3 :: string where
  "P3 = ''-- MariaDB 10.3 Compatible SQL Export'' @ [nl] @
        ''-- Optimized for ALL data types including colors, emojis, special characters'' @ [nl] @
        ''SET NAMES utf8mb4 COLLATE utf8mb4_general_ci;''"

lemma header_P3: "header = P3 @ drop (length P3) header"
  by code_simp

lemma P3_set_names: "js_includes P3 ''SET NAMES utf8mb4''"
  by code_simp

lemma dead_collations: "list_all (\<lambda>entry. dead gi (re_collation (fst entry)) P3) mysqlCollationMap"
  by code_simp

lemma dead_windows: "list_all (\<lambda>func. dead gi (re_window func) P3) windowFunctions"
  by code_simp

lemma dead_json_functions: "list_all (\<lambda>func. dead gi (re_json_function func) P3) jsonFunctions"
  by code_simp

lemma dead_P3_a:
  "dead gi re_set_names P3" "dead gi re_definer P3" "dead gi re_dumping P3"
  "dead g_only re_version_comment P3" "dead gi re_create_if_not_exists P3" "dead gi re_latin1 P3"
  "dead gi re_using_btree P3" "dead gi re_local_infile P3" "dead gi re_foreign_key_checks P3"
  "dead gi re_sql_mode P3" "dead gi re_lock_tables P3" "dead gi re_unlock_tables P3"
  "dead gi re_default_character_set P3" "dead gi re_default_charset P3" "dead gi re_engine_innodb P3"
  "dead gi re_int P3" "dead gi re_cte P3" "dead gi re_invisible P3" "dead gi re_check P3"
  "dead gi re_json_operator P3"
  by code_simp+

lemma dead_P3_b:
  "dead gi re_fulltext P3" "dead gi re_partition P3" "dead gi re_auto_increment P3"
  "dead gi re_timestamp P3" "dead gi re_disable_keys P3" "dead gi re_enable_keys P3"
  "dead gi re_charset_utf8 P3" "dead gi re_collate_general P3" "dead gim re_key P3"
  "dead gi re_character_set_utf8 P3" "dead gi re_default_charset_utf8 P3" "dead gi re_index P3"
  "dead gi re_row_format_table P3" "dead gi re_json_column P3" "dead gi re_text P3"
  "dead gi re_varchar P3" "dead gi re_collate_unicode P3"
  "dead g_only re_blank_lines P3" "dead gm re_empty_line P3"
  by code_simp+

lemma rules_keep: "list_all (keeps P3) (rules sqlContent)"
  unfolding rules_def
  using dead_collations dead_windows dead_json_functions
  by (auto simp add: list_all_iff rule_collation_def rule_window_def rule_json_function_def
      keeps_replace_rule dead_P3_a dead_P3_b keeps_lines_rule keeps_whitespace keeps_commit
      keeps_header P3_set_names)

definition before_header :: "string \<Rightarrow> js_error + ConversionResult" where
  \<comment> \<open>the state in which the conversion reaches its last two steps, the header and \<^verbatim>\<open>COMMIT\<close>\<close>
  "before_header sqlContent = apply_rules (butlast (butlast (rules sqlContent))) (initial sqlContent)"

lemma rules_split: "rules sqlContent = butlast (butlast (rules sqlContent)) @ [rule_header, rule_commit]"
  by (simp add: rules_def butlast_append)

lemma apply_rules_append:
  "apply_rules (xs @ ys) st = (case apply_rules xs st of Inl e \<Rightarrow> Inl e | Inr st' \<Rightarrow> apply_rules ys st')"
  by (induction xs arbitrary: st) (auto split: sum.splits)

lemma list_all_butlast: "list_all P xs \<Longrightarrow> list_all P (butlast xs)"
  by (auto simp: list_all_iff dest: in_set_butlastD)

lemma before_header_returns: "\<exists>w. before_header sqlContent = Inr w"
  unfolding before_header_def
  using apply_rules_ok[OF list_all_butlast[OF list_all_butlast[OF rules_ok[of sqlContent]]]
                          initial_consistent[of sqlContent]]
  by blast

lemma convert_phases:
  "convertMySQLToMariaDB sqlContent =
     (case before_header sqlContent of
        Inl e \<Rightarrow> Inl e
      | Inr w \<Rightarrow>
          (case rule_header w of
             Inl e \<Rightarrow> Inl e
           | Inr h \<Rightarrow>
               (case rule_commit h of
                  Inl e \<Rightarrow> Inl e
                | Inr c \<Rightarrow> Inr (c\<lparr>stats := (stats c)\<lparr>totalIssues := length (issues c)\<rparr>\<rparr>))))"
  unfolding convertMySQLToMariaDB_def before_header_def
  by (subst rules_split) (simp add: apply_rules_append split: sum.splits)

text \<open>
  When the first run prepends the header (the text it reaches the header step with has no
  \<^verbatim>\<open>SET NAMES utf8mb4\<close>), its output is the header followed by that text, with no
  \<^verbatim>\<open>COMMIT;\<close> appended; and the second run, on that output, reaches the header step with a
  text that still starts with the first three lines of the first header, so it holds
  \<^verbatim>\<open>SET NAMES utf8mb4\<close> and the header step of the second run changes nothing.
\<close>

lemma header_once:
  assumes "before_header sqlContent = Inr w1"
    and "\<not> js_includes (convertedSQL w1) ''SET NAMES utf8mb4''"
  shows "\<exists>r1 w2. convertMySQLToMariaDB sqlContent = Inr r1 \<and>
           convertedSQL r1 = header @ convertedSQL w1 \<and>
           before_header (convertedSQL r1) = Inr w2 \<and>
           js_includes (convertedSQL w2) ''SET NAMES utf8mb4'' \<and>
           rule_header w2 = Inr w2"
proof -
  from no_commit_after_header[OF assms(2)] obtain h1 where h1: "rule_header w1 = Inr h1"
    and t1: "convertedSQL h1 = header @ convertedSQL w1" and c1: "rule_commit h1 = Inr h1" by blast
  let ?r1 = "h1\<lparr>stats := (stats h1)\<lparr>totalIssues := length (issues h1)\<rparr>\<rparr>"
  have r1: "convertMySQLToMariaDB sqlContent = Inr ?r1"
    using assms(1) h1 c1 by (simp add: convert_phases)
  have T1: "convertedSQL ?r1 = header @ convertedSQL w1" using t1 by simp
  from before_header_returns[of "convertedSQL ?r1"] obtain w2 where
    w2: "before_header (convertedSQL ?r1) = Inr w2" by blast
  have start: "convertedSQL (initial (convertedSQL ?r1)) = P3 @ (drop (length P3) header @ convertedSQL w1)"
    using T1 header_P3 by (simp add: initial_def)
  have "list_all (keeps P3) (butlast (butlast (rules (convertedSQL ?r1))))"
    by (intro list_all_butlast rules_keep)
  from apply_rules_keeps[OF this start w2[unfolded before_header_def]]
  obtain u' where u': "convertedSQL w2 = P3 @ u'" by blast
  have inc: "js_includes (convertedSQL w2) ''SET NAMES utf8mb4''"
    unfolding u' by (rule js_includes_append[OF P3_set_names])
  then have "rule_header w2 = Inr w2" by (simp add: rule_header_def)
  with r1 T1 w2 inc show ?thesis by blast
qed

lemma before_header_empty: "before_header [] = Inr (initial [])"
  by code_simp

subsection \<open>Counting occurrences\<close>

fun occurrences :: "string \<Rightarrow> string \<Rightarrow> nat" where
  \<comment> \<open>the number of positions of \<open>s\<close> at which \<open>p\<close> stands\<close>
  "occurrences [] p = (if p = [] then 1 else 0)"
| "occurrences (c # cs) p = (if js_startsWith (c # cs) p then 1 else 0) + occurrences cs p"

lemma occurrences_includes: "(occurrences s p = 0) = (\<not> js_includes s p)"
  by (induction s) auto

lemma startsWith_split:
  assumes "c0 \<notin> set p"
  shows "js_startsWith (xs @ c0 # ys) p = js_startsWith xs p"
proof (cases "length p \<le> length xs")
  case True
  then show ?thesis by (simp add: js_startsWith_def)
next
  case False
  then have l: "length xs < length p" by simp
  have "take (length p) xs \<noteq> p" using l by auto
  moreover have "take (length p) (xs @ c0 # ys) \<noteq> p"
  proof
    assume e: "take (length p) (xs @ c0 # ys) = p"
    have "p ! length xs = take (length p) (xs @ c0 # ys) ! length xs" using e by simp
    also have "\<dots> = c0" using l by (simp add: nth_append take_Cons')
    finally have "c0 \<in> set p" using l by (metis nth_mem)
    with assms show False by simp
  qed
  ultimately show ?thesis by (simp add: js_startsWith_def)
qed

lemma occurrences_split:
  assumes "c0 \<notin> set p" and "p \<noteq> []"
  shows "occurrences (xs @ c0 # ys) p = occurrences xs p + occurrences ys p"
proof (induction xs)
  case Nil
  have "js_startsWith ([] @ c0 # ys) p = js_startsWith [] p" by (rule startsWith_split[OF assms(1)])
  then show ?case using assms by (simp add: js_startsWith_def)
next
  case (Cons x xs)
  have "js_startsWith ((x # xs) @ c0 # ys) p = js_startsWith (x # xs) p"
    by (rule startsWith_split[OF assms(1)])
  then show ?case using Cons by simp
qed

lemma occurrences_lines:
  assumes "nl \<notin> set p" and "p \<noteq> []"
  shows "occurrences (xs @ nl # nl # ys) p = occurrences xs p + occurrences ys p"
  using occurrences_split[OF assms, of xs "nl # ys"] occurrences_split[OF assms, of "[]" ys] assms(2)
  by simp

lemma startsWith_map:
  assumes "js_startsWith s p"
  shows "js_startsWith (map f s) (map f p)"
proof -
  have "take (length (map f p)) (map f s) = map f (take (length p) s)" by (simp add: take_map)
  then show ?thesis using assms by (simp add: js_startsWith_def)
qed

lemma startsWith_prefix:
  assumes "js_startsWith s (p @ q)"
  shows "js_startsWith s p"
proof -
  have a: "take (length p) (take (length (p @ q)) s) = take (length p) s" by (simp add: min_def)
  have b: "take (length (p @ q)) s = p @ q" using assms unfolding js_startsWith_def .
  have "take (length p) s = take (length p) (p @ q)" using a unfolding b by (rule sym)
  then show ?thesis unfolding js_startsWith_def by simp
qed

lemma includes_map: "js_includes s p \<Longrightarrow> js_includes (map f s) (map f p)"
proof (induction s)
  case Nil
  then show ?case by simp
next
  case (Cons c cs)
  have "js_startsWith (c # cs) p \<Longrightarrow> js_startsWith (map f (c # cs)) (map f p)"
    by (rule startsWith_map)
  then show ?case using Cons by auto
qed

lemma includes_prefix: "js_includes s (p @ q) \<Longrightarrow> js_includes s p"
proof (induction s)
  case Nil
  then show ?case by simp
next
  case (Cons c cs)
  have "js_startsWith (c # cs) (p @ q) \<Longrightarrow> js_startsWith (c # cs) p"
    by (rule startsWith_prefix)
  then show ?case using Cons by auto
qed

lemma commit_statement_lower: "js_includes s ''COMMIT;'' \<Longrightarrow> js_includes (js_toLowerCase s) ''commit''"
proof -
  assume "js_includes s ''COMMIT;''"
  then have "js_includes s (''COMMIT'' @ '';'')" by simp
  then have "js_includes s ''COMMIT''" by (rule includes_prefix)
  then have "js_includes (map to_lower s) (map to_lower ''COMMIT'')" by (rule includes_map)
  moreover have "map to_lower ''COMMIT'' = ''commit''" by code_simp
  ultimately show ?thesis by (simp add: js_toLowerCase_def)
qed

lemma header_occurrences:
  "occurrences (butlast header) ''SET NAMES utf8mb4'' = 1"
  "butlast header @ [nl] = header"
  "occurrences (''COMMIT;'' @ [nl]) ''COMMIT;'' = 1"
  "occurrences (''commit;'' @ [nl]) ''commit'' = 1"
  "occurrences (''COMMIT;'' @ [nl]) ''SET NAMES utf8mb4'' = 0"
  "map to_lower ([nl, nl] @ ''COMMIT;'' @ [nl]) = nl # nl # (''commit;'' @ [nl])"
  "nl \<notin> set ''SET NAMES utf8mb4''" "nl \<notin> set ''COMMIT;''" "nl \<notin> set ''commit''"
  "header \<noteq> []"
  by code_simp+

lemma ne_commit: "''commit'' \<noteq> []" "''COMMIT;'' \<noteq> []" "''SET NAMES utf8mb4'' \<noteq> []"
  by simp_all

lemma header_step:
  "rule_header w = Inr w \<and> js_includes (convertedSQL w) ''SET NAMES utf8mb4'' \<or>
   (\<exists>h. rule_header w = Inr h \<and> h \<noteq> w \<and> \<not> js_includes (convertedSQL w) ''SET NAMES utf8mb4'' \<and>
        convertedSQL h = header @ convertedSQL w \<and>
        issues h = issues w @ [header_issue] \<and>
        occurrences (convertedSQL h) ''SET NAMES utf8mb4'' = 1)"
proof (cases "js_includes (convertedSQL w) ''SET NAMES utf8mb4''")
  case True
  then show ?thesis by (simp add: rule_header_def)
next
  case False
  obtain iss ss where p: "push_optimization (issues w, stats w) header_issue = (iss, ss)"
    by (cases "push_optimization (issues w, stats w) header_issue") blast
  let ?h = "\<lparr>convertedSQL = header @ convertedSQL w, issues = iss, stats = ss\<rparr>"
  have h: "rule_header w = Inr ?h" using False p by (simp add: rule_header_def)
  have i: "iss = issues w @ [header_issue]" using p by (auto simp: push_optimization_def)
  have ne: "?h \<noteq> w"
  proof
    assume "?h = w"
    then have "convertedSQL ?h = convertedSQL w" by (rule arg_cong)
    then show False using header_occurrences(10) by simp
  qed
  have z: "occurrences (convertedSQL w) ''SET NAMES utf8mb4'' = 0"
    using False by (simp add: occurrences_includes)
  have "header @ convertedSQL w = (butlast header @ [nl]) @ convertedSQL w"
    unfolding header_occurrences(2) by (rule refl)
  also have "\<dots> = butlast header @ nl # convertedSQL w" by simp
  finally have e: "header @ convertedSQL w = butlast header @ nl # convertedSQL w" .
  have "occurrences (header @ convertedSQL w) ''SET NAMES utf8mb4'' =
      occurrences (butlast header) ''SET NAMES utf8mb4'' + occurrences (convertedSQL w) ''SET NAMES utf8mb4''"
    unfolding e by (rule occurrences_split[OF header_occurrences(7) ne_commit(3)])
  then have "occurrences (convertedSQL ?h) ''SET NAMES utf8mb4'' = 1"
    using z header_occurrences(1) by simp
  with h ne False i show ?thesis by (intro disjI2 exI[of _ ?h]) simp
qed

lemma commit_step:
  "rule_commit h = Inr h \<and> js_includes (js_toLowerCase (convertedSQL h)) ''commit'' \<or>
   (\<exists>c. rule_commit h = Inr c \<and> c \<noteq> h \<and> \<not> js_includes (js_toLowerCase (convertedSQL h)) ''commit'' \<and>
        convertedSQL c = convertedSQL h @ [nl, nl] @ ''COMMIT;'' @ [nl] \<and>
        occurrences (js_toLowerCase (convertedSQL c)) ''commit'' = 1 \<and>
        occurrences (convertedSQL c) ''COMMIT;'' = 1 \<and>
        occurrences (convertedSQL c) ''SET NAMES utf8mb4'' = occurrences (convertedSQL h) ''SET NAMES utf8mb4'')"
proof (cases "js_includes (js_toLowerCase (convertedSQL h)) ''commit''")
  case True
  then show ?thesis by (simp add: rule_commit_def)
next
  case False
  let ?sql = "convertedSQL h @ [nl, nl] @ ''COMMIT;'' @ [nl]"
  obtain iss ss where p: "push_optimization (issues h, stats h) (commit_issue (length (js_split_nl ?sql))) = (iss, ss)"
    by (cases "push_optimization (issues h, stats h) (commit_issue (length (js_split_nl ?sql)))") blast
  let ?c = "\<lparr>convertedSQL = ?sql, issues = iss, stats = ss\<rparr>"
  have c: "rule_commit h = Inr ?c" using False p by (simp add: rule_commit_def Let_def)
  have ne: "?c \<noteq> h"
  proof
    assume "?c = h"
    then have "convertedSQL ?c = convertedSQL h" by (rule arg_cong)
    then show False by simp
  qed
  have z1: "occurrences (js_toLowerCase (convertedSQL h)) ''commit'' = 0"
    using False by (simp add: occurrences_includes)
  have "\<not> js_includes (convertedSQL h) ''COMMIT;''" using False commit_statement_lower by blast
  then have z2: "occurrences (convertedSQL h) ''COMMIT;'' = 0"
    by (simp add: occurrences_includes)
  have "js_toLowerCase ?sql = map to_lower (convertedSQL h) @ map to_lower ([nl, nl] @ ''COMMIT;'' @ [nl])"
    unfolding js_toLowerCase_def map_append[symmetric] by (rule refl)
  then have l: "js_toLowerCase ?sql = js_toLowerCase (convertedSQL h) @ nl # nl # (''commit;'' @ [nl])"
    unfolding header_occurrences(6) js_toLowerCase_def .
  have "occurrences (js_toLowerCase (convertedSQL h) @ nl # nl # (''commit;'' @ [nl])) ''commit'' =
        occurrences (js_toLowerCase (convertedSQL h)) ''commit'' + occurrences (''commit;'' @ [nl]) ''commit''"
    by (rule occurrences_lines[OF header_occurrences(9) ne_commit(1)])
  also have "\<dots> = 1" unfolding z1 header_occurrences(4) by simp
  finally have 1: "occurrences (js_toLowerCase ?sql) ''commit'' = 1" unfolding l .
  have t: "?sql = convertedSQL h @ nl # nl # (''COMMIT;'' @ [nl])" by simp
  have "occurrences (convertedSQL h @ nl # nl # (''COMMIT;'' @ [nl])) ''COMMIT;'' =
        occurrences (convertedSQL h) ''COMMIT;'' + occurrences (''COMMIT;'' @ [nl]) ''COMMIT;''"
    by (rule occurrences_lines[OF header_occurrences(8) ne_commit(2)])
  also have "\<dots> = 1" unfolding z2 header_occurrences(3) by simp
  finally have 2: "occurrences ?sql ''COMMIT;'' = 1" unfolding t .
  have "occurrences (convertedSQL h @ nl # nl # (''COMMIT;'' @ [nl])) ''SET NAMES utf8mb4'' =
        occurrences (convertedSQL h) ''SET NAMES utf8mb4'' + occurrences (''COMMIT;'' @ [nl]) ''SET NAMES utf8mb4''"
    by (rule occurrences_lines[OF header_occurrences(7) ne_commit(3)])
  also have "\<dots> = occurrences (convertedSQL h) ''SET NAMES utf8mb4''" unfolding header_occurrences(5) by simp
  finally have 3: "occurrences ?sql ''SET NAMES utf8mb4'' = occurrences (convertedSQL h) ''SET NAMES utf8mb4''"
    unfolding t .
  from c ne False 1 2 3 show ?thesis by (intro disjI2 exI[of _ ?c]) simp
qed


lemma commit_step_example:
  "\<exists>c. rule_commit (initial ''SELECT 1;'') = Inr c \<and>
        convertedSQL c = ''SELECT 1;'' @ [nl, nl] @ ''COMMIT;'' @ [nl] \<and>
        occurrences (convertedSQL c) ''COMMIT;'' = 1 \<and>
        occurrences (js_toLowerCase (convertedSQL c)) ''commit'' = 1"
proof -
  have "\<not> js_includes (js_toLowerCase (convertedSQL (initial ''SELECT 1;''))) ''commit''"
    by code_simp
  with commit_step[of "initial ''SELECT 1;''"] show ?thesis by (auto simp: initial_def)
qed

lemma header_step_returns:
  "\<exists>h. rule_header w = Inr h \<and> (h \<noteq> w \<longrightarrow> \<not> js_includes (convertedSQL w) ''SET NAMES utf8mb4'') \<and>
        (h = w \<or> convertedSQL h = header @ convertedSQL w \<and> issues h = issues w @ [header_issue] \<and>
                  occurrences (convertedSQL h) ''SET NAMES utf8mb4'' = 1)"
  using header_step[of w] by auto

lemma commit_step_returns:
  "\<exists>c. rule_commit h = Inr c \<and>
        (c = h \<or> convertedSQL c = convertedSQL h @ [nl, nl] @ ''COMMIT;'' @ [nl] \<and>
                  \<not> js_includes (js_toLowerCase (convertedSQL h)) ''commit'' \<and>
                  occurrences (js_toLowerCase (convertedSQL c)) ''commit'' = 1 \<and>
                  occurrences (convertedSQL c) ''COMMIT;'' = 1) \<and>
        occurrences (convertedSQL c) ''SET NAMES utf8mb4'' = occurrences (convertedSQL h) ''SET NAMES utf8mb4''"
  using commit_step[of h] by auto

text \<open>
  Claim C9.  For every input both runs return.  When the first run prepends the header, the
  header step of the second run changes nothing.  And what the second run adds, it adds
  beside none of its kind: if its header step prepends the header, the text returned holds
  \<^verbatim>\<open>SET NAMES utf8mb4\<close> exactly once; if its last step appends \<^verbatim>\<open>COMMIT;\<close>, the text before
  it had no \<^verbatim>\<open>commit\<close> in any case of letters, and the text returned holds \<^verbatim>\<open>COMMIT;\<close>, and
  \<^verbatim>\<open>commit\<close> with letters compared without case, exactly once.  So the second run adds
  no second header and no second \<^verbatim>\<open>COMMIT;\<close> to the text.
\<close>

theorem second_run_repeats_nothing:
  "\<exists>r1 r2 w1 h1 w2 h2 c2.
     convertMySQLToMariaDB sqlContent = Inr r1 \<and>
     convertMySQLToMariaDB (convertedSQL r1) = Inr r2 \<and>
     before_header sqlContent = Inr w1 \<and> rule_header w1 = Inr h1 \<and>
     before_header (convertedSQL r1) = Inr w2 \<and> rule_header w2 = Inr h2 \<and> rule_commit h2 = Inr c2 \<and>
     convertedSQL r2 = convertedSQL c2 \<and> issues r2 = issues c2 \<and>
     (h1 \<noteq> w1 \<longrightarrow> h2 = w2) \<and>
     (h2 = w2 \<or>
      convertedSQL h2 = header @ convertedSQL w2 \<and>
      occurrences (convertedSQL r2) ''SET NAMES utf8mb4'' = 1) \<and>
     (c2 = h2 \<or>
      convertedSQL c2 = convertedSQL h2 @ [nl, nl] @ ''COMMIT;'' @ [nl] \<and>
      \<not> js_includes (js_toLowerCase (convertedSQL h2)) ''commit'' \<and>
      occurrences (js_toLowerCase (convertedSQL r2)) ''commit'' = 1 \<and>
      occurrences (convertedSQL r2) ''COMMIT;'' = 1)"
proof -
  from before_header_returns obtain w1 where w1: "before_header sqlContent = Inr w1" by blast
  from header_step_returns obtain h1 where h1: "rule_header w1 = Inr h1"
    and n1: "h1 \<noteq> w1 \<longrightarrow> \<not> js_includes (convertedSQL w1) ''SET NAMES utf8mb4''" by blast
  from commit_step_returns obtain c1 where c1: "rule_commit h1 = Inr c1" by blast
  let ?r1 = "c1\<lparr>stats := (stats c1)\<lparr>totalIssues := length (issues c1)\<rparr>\<rparr>"
  have r1: "convertMySQLToMariaDB sqlContent = Inr ?r1"
    using w1 h1 c1 by (simp add: convert_phases)
  from before_header_returns obtain w2 where w2: "before_header (convertedSQL ?r1) = Inr w2" by blast
  from header_step_returns obtain h2 where h2: "rule_header w2 = Inr h2"
    and a2: "h2 = w2 \<or> convertedSQL h2 = header @ convertedSQL w2 \<and> issues h2 = issues w2 @ [header_issue] \<and>
                  occurrences (convertedSQL h2) ''SET NAMES utf8mb4'' = 1" by blast
  from commit_step_returns obtain c2 where c2: "rule_commit h2 = Inr c2"
    and b2: "c2 = h2 \<or> convertedSQL c2 = convertedSQL h2 @ [nl, nl] @ ''COMMIT;'' @ [nl] \<and>
                  \<not> js_includes (js_toLowerCase (convertedSQL h2)) ''commit'' \<and>
                  occurrences (js_toLowerCase (convertedSQL c2)) ''commit'' = 1 \<and>
                  occurrences (convertedSQL c2) ''COMMIT;'' = 1"
    and s2: "occurrences (convertedSQL c2) ''SET NAMES utf8mb4'' = occurrences (convertedSQL h2) ''SET NAMES utf8mb4''"
    by blast
  let ?r2 = "c2\<lparr>stats := (stats c2)\<lparr>totalIssues := length (issues c2)\<rparr>\<rparr>"
  have r2: "convertMySQLToMariaDB (convertedSQL ?r1) = Inr ?r2"
    using w2 h2 c2 by (simp add: convert_phases)
  have once: "h1 \<noteq> w1 \<longrightarrow> h2 = w2"
  proof
    assume "h1 \<noteq> w1"
    with n1 have "\<not> js_includes (convertedSQL w1) ''SET NAMES utf8mb4''" by simp
    from header_once[OF w1 this] r1 w2 h2 show "h2 = w2" by auto
  qed
  have t: "convertedSQL ?r2 = convertedSQL c2" "issues ?r2 = issues c2" by simp_all
  have A: "h2 = w2 \<or> convertedSQL h2 = header @ convertedSQL w2 \<and>
             occurrences (convertedSQL ?r2) ''SET NAMES utf8mb4'' = 1"
    using a2 s2 by auto
  have B: "c2 = h2 \<or> convertedSQL c2 = convertedSQL h2 @ [nl, nl] @ ''COMMIT;'' @ [nl] \<and>
             \<not> js_includes (js_toLowerCase (convertedSQL h2)) ''commit'' \<and>
             occurrences (js_toLowerCase (convertedSQL ?r2)) ''commit'' = 1 \<and>
             occurrences (convertedSQL ?r2) ''COMMIT;'' = 1"
    using b2 by auto
  from r1 r2 w1 h1 w2 h2 c2 t once A B show ?thesis by blast
qed

lemma header_step_empty: "\<exists>h. rule_header (initial []) = Inr h \<and> h \<noteq> initial []"
  using header_step[of "initial []"] by (auto simp: initial_def)

theorem second_run_repeats_nothing_witness:
  "\<exists>r1 r2 w1 h1 w2 h2 c2.
     convertMySQLToMariaDB [] = Inr r1 \<and> convertedSQL r1 = header \<and>
     convertMySQLToMariaDB header = Inr r2 \<and>
     before_header [] = Inr w1 \<and> rule_header w1 = Inr h1 \<and> h1 \<noteq> w1 \<and>
     before_header header = Inr w2 \<and> rule_header w2 = Inr h2 \<and> h2 = w2 \<and>
     rule_commit h2 = Inr c2 \<and> convertedSQL r2 = convertedSQL c2 \<and> issues r2 = issues c2"
proof -
  from second_run_repeats_nothing[of "[]"] obtain r1 r2 w1 h1 w2 h2 c2 where
    f: "convertMySQLToMariaDB [] = Inr r1" "convertMySQLToMariaDB (convertedSQL r1) = Inr r2"
       "before_header [] = Inr w1" "rule_header w1 = Inr h1"
       "before_header (convertedSQL r1) = Inr w2" "rule_header w2 = Inr h2" "rule_commit h2 = Inr c2"
       "convertedSQL r2 = convertedSQL c2" "issues r2 = issues c2" "h1 \<noteq> w1 \<longrightarrow> h2 = w2"
    by blast
  have "r1 = empty_result" using f(1) convert_empty by simp
  then have t: "convertedSQL r1 = header" by (simp add: empty_result_def)
  have w: "w1 = initial []" using f(3) before_header_empty by simp
  have n: "h1 \<noteq> w1" using header_step_empty f(4) unfolding w by auto
  with f(10) have "h2 = w2" by simp
  with f n t show ?thesis by auto
qed

end
